theory Spec2Isabelle
  imports Main
begin

section \<open>Errors\<close>

text \<open>
  A Go \<^verbatim>\<open>error\<close> value is observed by the package in two ways only: through its
  text (\<^verbatim>\<open>err.Error()\<close>) and through \<^verbatim>\<open>errors.Is(err, os.ErrProcessDone)\<close>.
  An error is modelled by these two observations; \<^verbatim>\<open>nil\<close> is \<open>None\<close>.
\<close>

datatype error = GoError (Error: string) (Is_ErrProcessDone: bool)

definition ErrProcessDone :: error where
  "ErrProcessDone = GoError ''os: process already finished'' True"

text \<open>\<^verbatim>\<open>isProcessDone\<close>, \<^verbatim>\<open>isInterrupt\<close>, \<^verbatim>\<open>isKilled\<close> (src/unnamed/part_000, lines 324-334).\<close>

definition isProcessDone :: "error option \<Rightarrow> bool" where
  "isProcessDone e = (case e of None \<Rightarrow> False | Some x \<Rightarrow> Is_ErrProcessDone x)"

definition isInterrupt :: "error option \<Rightarrow> bool" where
  "isInterrupt e = (case e of None \<Rightarrow> False | Some x \<Rightarrow> Error x = ''signal: interrupt'')"

definition isKilled :: "error option \<Rightarrow> bool" where
  "isKilled e = (case e of None \<Rightarrow> False | Some x \<Rightarrow> Error x = ''signal: killed'')"

section \<open>Channels and the once guard\<close>

text \<open>
  A buffered Go channel of errors. A send blocks while the buffer is full and panics on
  a closed channel; a receive takes the oldest buffered value, yields the zero value
  \<^verbatim>\<open>nil\<close> on a closed and empty channel, and blocks otherwise; closing a closed channel
  panics.
\<close>

record chan =
  buf :: "error option list"
  cap :: nat
  closed :: bool

datatype 'a attempt = Ready 'a | Blocked | Panics

definition make_chan :: "nat \<Rightarrow> chan" where
  "make_chan n = \<lparr>buf = [], cap = n, closed = False\<rparr>"

definition chan_send :: "error option \<Rightarrow> chan \<Rightarrow> chan attempt" where
  "chan_send v c =
     (if closed c then Panics
      else if length (buf c) < cap c then Ready (c\<lparr>buf := buf c @ [v]\<rparr>)
      else Blocked)"

definition chan_recv :: "chan \<Rightarrow> (error option \<times> chan) attempt" where
  "chan_recv c =
     (case buf c of
        v # vs \<Rightarrow> Ready (v, c\<lparr>buf := vs\<rparr>)
      | [] \<Rightarrow> if closed c then Ready (None, c) else Blocked)"

definition chan_close :: "chan \<Rightarrow> chan attempt" where
  "chan_close c = (if closed c then Panics else Ready (c\<lparr>closed := True\<rparr>))"

text \<open>
  \<^verbatim>\<open>onceError\<close> (src/unnamed/part_000, lines 198-201): a \<^verbatim>\<open>sync.Once\<close> and the recorded error.
  The \<^verbatim>\<open>sync.Once\<close> is \<open>Fresh\<close> before the first \<^verbatim>\<open>Do\<close>, \<open>Running\<close> while the first
  caller executes the function under the once's mutex, and \<open>Finished\<close> afterwards.
\<close>

datatype Once = Fresh | Running | Finished

record onceError =
  o_once :: Once
  err :: "error option"

section \<open>Commands and processes\<close>

text \<open>
  \<^verbatim>\<open>type Cmd exec.Cmd\<close> (src/command.go, line 51), with the fields the package reads.
  Streams and files are opaque references; \<open>Process\<close> is the OS process handle,
  \<^verbatim>\<open>nil\<close> until the command has been started.
\<close>

record Cmd =
  Path :: string
  Args :: "string list"
  Env :: "string list"
  Dir :: string
  Stdin :: "nat option"
  Stdout :: "nat option"
  Stderr :: "nat option"
  ExtraFiles :: "nat list"
  Process :: "nat option"

text \<open>
  \<^verbatim>\<open>type Process struct\<close> (src/unnamed/part_000, lines 208-212). The pointer
  \<^verbatim>\<open>cmd\<close> is never \<^verbatim>\<open>nil\<close>: the only constructor is \<^verbatim>\<open>newProcess\<close>, which
  \<^verbatim>\<open>Cmd.Start\<close> calls on its receiver after the launch has succeeded.
\<close>

record Process =
  cmd :: Cmd
  exitCh :: chan
  once :: onceError

text \<open>\<^verbatim>\<open>newProcess\<close> (src/unnamed/part_000, lines 189-196).\<close>

definition newProcess :: "Cmd \<Rightarrow> Process" where
  "newProcess c = \<lparr>cmd = c, exitCh = make_chan 1, once = \<lparr>o_once = Fresh, err = None\<rparr>\<rparr>"


text \<open>
  \<^verbatim>\<open>exec.Command\<close> of the standard library, as \<^verbatim>\<open>Exec.Command\<close> and \<^verbatim>\<open>Restart\<close>
  use it: it sets only \<open>Path\<close> and \<open>Args\<close>. The first argument is the answer of the
  library's path lookup for \<open>name\<close>: \<open>Some p\<close> when \<open>name\<close> has no path separator
  and resolves to \<open>p\<close>, \<open>None\<close> when \<open>name\<close> is used directly.
\<close>

definition exec_Command :: "string option \<Rightarrow> string \<Rightarrow> string list \<Rightarrow> Cmd" where
  "exec_Command look name arg =
     \<lparr>Path = (case look of None \<Rightarrow> name | Some p \<Rightarrow> p), Args = name # arg, Env = [],
      Dir = [], Stdin = None, Stdout = None, Stderr = None, ExtraFiles = [],
      Process = None\<rparr>"

text \<open>\<^verbatim>\<open>Exec\<close> and \<^verbatim>\<open>Exec.Command\<close> (src/command.go, lines 31-49).\<close>

record Exec =
  exec_Dir :: string
  exec_Env :: "string list"
  exec_Stderr :: "nat option"
  exec_Stdout :: "nat option"
  exec_Stdin :: "nat option"

definition Command :: "string option \<Rightarrow> Exec \<Rightarrow> string \<Rightarrow> string list \<Rightarrow> Cmd" where
  "Command look c name args =
     (exec_Command look name args)
       \<lparr>Dir := exec_Dir c, Env := exec_Env c, Stderr := exec_Stderr c,
        Stdout := exec_Stdout c, Stdin := exec_Stdin c\<rparr>"

text \<open>
  \<^verbatim>\<open>c.exec().Start()\<close>: the operating system either refuses the launch with an error
  or hands back a process handle, which the library stores in the command.
\<close>

definition exec_Start :: "error + nat \<Rightarrow> Cmd \<Rightarrow> error + Cmd" where
  "exec_Start l c = (case l of Inl e \<Rightarrow> Inl e | Inr h \<Rightarrow> Inr (c\<lparr>Process := Some h\<rparr>))"

section \<open>Tasks\<close>

text \<open>
  Every call of a method of one \<^verbatim>\<open>Process\<close> runs as a task of its own, and so does the
  goroutine \<^verbatim>\<open>go p.wait()\<close>. A task is at one of the program points below; each names
  the source function and the atomic action it is about to perform.
\<close>

datatype call = Go_wait | Call_Wait | Call_Stop | Call_Kill | Call_Restart

text \<open>The value of \<^verbatim>\<open>expectError\<close> in \<^verbatim>\<open>stop\<close>: \<^verbatim>\<open>isInterrupt\<close> or \<^verbatim>\<open>isKilled\<close>.\<close>

datatype sigclass = By_interrupt | By_kill

fun expectError :: "sigclass \<Rightarrow> error option \<Rightarrow> bool" where
  "expectError By_interrupt e = isInterrupt e"
| "expectError By_kill e = isKilled e"

datatype body = Body_stop | Body_kill

datatype pc =
    At_wait_os
  | At_wait_send "error option"
  | At_Wait_select
  | At_Do body
  | At_stop_handle
  | At_stop_interrupt
  | At_stop_escalate
  | At_stop_select sigclass
  | At_stop_close sigclass "error option"
  | At_kill_handle
  | At_kill_signal
  | At_kill_recv
  | At_kill_close "error option"
  | At_Do_store "error option"
  | At_Do_return
  | At_Restart_launch
  | Returned "error option"
  | Restarted "error + Cmd"

record task =
  call :: call
  pc :: pc
  ctx_done :: bool

datatype panic = Send_on_closed | Close_of_closed | Slice_bounds

text \<open>
  The state of one controller: the \<^verbatim>\<open>Process\<close> struct, its tasks, and whether the
  program has panicked. The last five fields are history variables: they count the
  completed OS waits, the channel sends, the channel closes and the entries into the
  function guarded by the once, and list the values that function returned.
\<close>

record system =
  proc :: Process
  tasks :: "nat \<Rightarrow> task option"
  panic :: "panic option"
  waits :: nat
  sends :: nat
  closes :: nat
  bodies :: nat
  outcomes :: "error option list"

text \<open>
  What the environment contributes to an atomic action: nothing, the error an OS call
  returns, the branch a \<^verbatim>\<open>select\<close> takes, or the outcome of launching the next
  command (the path lookup's answer and the OS's). The operating system is not
  constrained: every signal and every wait may return any error or none.
\<close>

datatype answer =
    Plain
  | Returns "error option"
  | Branch_recv
  | Branch_done
  | Launches "string option" "error + nat"

definition set_exitCh :: "chan \<Rightarrow> system \<Rightarrow> system" where
  "set_exitCh c s = s\<lparr>proc := (proc s)\<lparr>exitCh := c\<rparr>\<rparr>"

definition set_once :: "onceError \<Rightarrow> system \<Rightarrow> system" where
  "set_once g s = s\<lparr>proc := (proc s)\<lparr>once := g\<rparr>\<rparr>"

text \<open>\<^verbatim>\<open><-p.exitCh\<close>: \<open>None\<close> while the receive blocks.\<close>

definition recv_exit :: "system \<Rightarrow> (error option \<times> system) option" where
  "recv_exit s =
     (case chan_recv (exitCh (proc s)) of
        Ready (v, c) \<Rightarrow> Some (v, set_exitCh c s)
      | Blocked \<Rightarrow> None
      | Panics \<Rightarrow> None)"

text \<open>\<^verbatim>\<open>wait\<close> (src/unnamed/part_000, lines 214-216).\<close>

definition wait_step :: "pc \<Rightarrow> answer \<Rightarrow> system \<Rightarrow> (pc \<times> system) option" where
  "wait_step q a s =
     (case (q, a) of
        (At_wait_os, Returns e) \<Rightarrow> Some (At_wait_send e, s\<lparr>waits := Suc (waits s)\<rparr>)
      | (At_wait_send e, Plain) \<Rightarrow>
          (case chan_send e (exitCh (proc s)) of
             Ready c \<Rightarrow> Some (Returned None, (set_exitCh c s)\<lparr>sends := Suc (sends s)\<rparr>)
           | Blocked \<Rightarrow> None
           | Panics \<Rightarrow> Some (At_wait_send e, s\<lparr>panic := Some Send_on_closed\<rparr>))
      | _ \<Rightarrow> None)"

text \<open>
  \<^verbatim>\<open>stop\<close> (src/unnamed/part_000, lines 220-261); \<open>d\<close> tells whether \<^verbatim>\<open>ctx.Done()\<close> is ready.
  A return of the function is the program point \<open>At_Do_store\<close> with the returned value:
  \<^verbatim>\<open>stop\<close> is only called from inside \<^verbatim>\<open>once.Do\<close>.
\<close>

definition stop_step :: "pc \<Rightarrow> answer \<Rightarrow> bool \<Rightarrow> system \<Rightarrow> (pc \<times> system) option" where
  "stop_step q a d s =
     (case (q, a) of
        (At_stop_handle, Plain) \<Rightarrow>
          Some (if Process (cmd (proc s)) = None then At_Do_store None
                else At_stop_interrupt, s)
      | (At_stop_interrupt, Returns e) \<Rightarrow>
          Some (if e = None then At_stop_select By_interrupt
                else if isProcessDone e then At_Do_store None
                else At_stop_escalate, s)
      | (At_stop_escalate, Returns e) \<Rightarrow>
          Some (if e = None then At_stop_select By_kill else At_Do_store e, s)
      | (At_stop_select k, Branch_recv) \<Rightarrow>
          (case recv_exit s of
             None \<Rightarrow> None
           | Some (v, s') \<Rightarrow> Some (At_stop_close k v, s'))
      | (At_stop_select k, Branch_done) \<Rightarrow>
          (if d then Some (At_kill_handle, s) else None)
      | (At_stop_close k v, Plain) \<Rightarrow>
          (case chan_close (exitCh (proc s)) of
             Ready c \<Rightarrow>
               Some (At_Do_store (if v \<noteq> None \<and> \<not> expectError k v then v else None),
                     (set_exitCh c s)\<lparr>closes := Suc (closes s)\<rparr>)
           | Blocked \<Rightarrow> None
           | Panics \<Rightarrow> Some (At_stop_close k v, s\<lparr>panic := Some Close_of_closed\<rparr>))
      | _ \<Rightarrow> None)"

text \<open>
  \<^verbatim>\<open>kill\<close> (src/unnamed/part_000, lines 264-286). It returns to \<^verbatim>\<open>once.Do\<close> directly
  (\<^verbatim>\<open>Kill\<close>) or through \<^verbatim>\<open>stop\<close>, which returns its result unchanged (line 249).
\<close>

definition kill_step :: "pc \<Rightarrow> answer \<Rightarrow> system \<Rightarrow> (pc \<times> system) option" where
  "kill_step q a s =
     (case (q, a) of
        (At_kill_handle, Plain) \<Rightarrow>
          Some (if Process (cmd (proc s)) = None then At_Do_store None
                else At_kill_signal, s)
      | (At_kill_signal, Returns e) \<Rightarrow>
          Some (if e = None then At_kill_recv
                else if isProcessDone e then At_Do_store None
                else At_Do_store e, s)
      | (At_kill_recv, Branch_recv) \<Rightarrow>
          (case recv_exit s of
             None \<Rightarrow> None
           | Some (v, s') \<Rightarrow> Some (At_kill_close v, s'))
      | (At_kill_close v, Plain) \<Rightarrow>
          (case chan_close (exitCh (proc s)) of
             Ready c \<Rightarrow>
               Some (At_Do_store (if v \<noteq> None \<and> \<not> isKilled v then v else None),
                     (set_exitCh c s)\<lparr>closes := Suc (closes s)\<rparr>)
           | Blocked \<Rightarrow> None
           | Panics \<Rightarrow> Some (At_kill_close v, s\<lparr>panic := Some Close_of_closed\<rparr>))
      | _ \<Rightarrow> None)"

text \<open>
  \<^verbatim>\<open>onceError.Do\<close> (src/unnamed/part_000, lines 203-206) with \<^verbatim>\<open>sync.Once.Do\<close>: the first caller
  takes the once and runs the function; a caller that finds it running blocks on the
  once's mutex; a caller that finds it finished returns the recorded error. What
  follows the return depends on the method that called \<^verbatim>\<open>Do\<close>: \<^verbatim>\<open>Stop\<close>, \<^verbatim>\<open>Kill\<close> and
  \<^verbatim>\<open>Wait\<close> return the error, \<^verbatim>\<open>Restart\<close> (lines 309-311) returns it when it is not
  \<^verbatim>\<open>nil\<close> and goes on to the launch otherwise.
\<close>

definition body_entry :: "body \<Rightarrow> pc" where
  "body_entry b = (case b of Body_stop \<Rightarrow> At_stop_handle | Body_kill \<Rightarrow> At_kill_handle)"

definition after_Do :: "call \<Rightarrow> error option \<Rightarrow> pc" where
  "after_Do c r =
     (case c of
        Call_Restart \<Rightarrow> (case r of Some e \<Rightarrow> Restarted (Inl e) | None \<Rightarrow> At_Restart_launch)
      | _ \<Rightarrow> Returned r)"

definition Do_step :: "pc \<Rightarrow> answer \<Rightarrow> call \<Rightarrow> system \<Rightarrow> (pc \<times> system) option" where
  "Do_step q a c s =
     (case (q, a) of
        (At_Do b, Plain) \<Rightarrow>
          (case o_once (once (proc s)) of
             Fresh \<Rightarrow>
               Some (body_entry b,
                     (set_once ((once (proc s))\<lparr>o_once := Running\<rparr>) s)
                       \<lparr>bodies := Suc (bodies s)\<rparr>)
           | Running \<Rightarrow> None
           | Finished \<Rightarrow> Some (At_Do_return, s))
      | (At_Do_store r, Plain) \<Rightarrow>
          Some (At_Do_return,
                (set_once \<lparr>o_once = Finished, err = r\<rparr> s)\<lparr>outcomes := outcomes s @ [r]\<rparr>)
      | (At_Do_return, Plain) \<Rightarrow> Some (after_Do c (err (once (proc s))), s)
      | _ \<Rightarrow> None)"

text \<open>\<^verbatim>\<open>Wait\<close> (src/unnamed/part_000, lines 298-305); \<^verbatim>\<open>p.Kill()\<close> is \<^verbatim>\<open>p.once.Do(p.kill)\<close>.\<close>

definition Wait_step :: "pc \<Rightarrow> answer \<Rightarrow> bool \<Rightarrow> system \<Rightarrow> (pc \<times> system) option" where
  "Wait_step q a d s =
     (case (q, a) of
        (At_Wait_select, Branch_done) \<Rightarrow> (if d then Some (At_Do Body_kill, s) else None)
      | (At_Wait_select, Branch_recv) \<Rightarrow>
          (case recv_exit s of
             None \<Rightarrow> None
           | Some (v, s') \<Rightarrow> Some (Returned v, s'))
      | _ \<Rightarrow> None)"

text \<open>
  \<^verbatim>\<open>Restart\<close> after its \<^verbatim>\<open>Stop\<close> has returned \<^verbatim>\<open>nil\<close> (src/unnamed/part_000, lines 312-321).
  The slice expression \<^verbatim>\<open>p.cmd.Args[1:]\<close> panics on an empty \<^verbatim>\<open>Args\<close>.
\<close>

definition Restart_next :: "string option \<Rightarrow> Cmd \<Rightarrow> Cmd option" where
  "Restart_next look c =
     (case Args c of
        [] \<Rightarrow> None
      | a0 # rest \<Rightarrow>
          Some ((exec_Command look (Path c) rest)
                  \<lparr>Env := Env c, Stdout := Stdout c, Stderr := Stderr c, Stdin := Stdin c,
                   ExtraFiles := ExtraFiles c, Dir := Dir c\<rparr>))"

definition Restart_step :: "pc \<Rightarrow> answer \<Rightarrow> system \<Rightarrow> (pc \<times> system) option" where
  "Restart_step q a s =
     (case (q, a) of
        (At_Restart_launch, Launches look l) \<Rightarrow>
          (case Restart_next look (cmd (proc s)) of
             None \<Rightarrow> Some (At_Restart_launch, s\<lparr>panic := Some Slice_bounds\<rparr>)
           | Some next \<Rightarrow> Some (Restarted (exec_Start l next), s))
      | _ \<Rightarrow> None)"

text \<open>The atomic action of a task, by the function its program point lies in.\<close>

definition act :: "answer \<Rightarrow> task \<Rightarrow> system \<Rightarrow> (pc \<times> system) option" where
  "act a th s =
     (case pc th of
        At_wait_os \<Rightarrow> wait_step (pc th) a s
      | At_wait_send e \<Rightarrow> wait_step (pc th) a s
      | At_Wait_select \<Rightarrow> Wait_step (pc th) a (ctx_done th) s
      | At_Do b \<Rightarrow> Do_step (pc th) a (call th) s
      | At_stop_handle \<Rightarrow> stop_step (pc th) a (ctx_done th) s
      | At_stop_interrupt \<Rightarrow> stop_step (pc th) a (ctx_done th) s
      | At_stop_escalate \<Rightarrow> stop_step (pc th) a (ctx_done th) s
      | At_stop_select k \<Rightarrow> stop_step (pc th) a (ctx_done th) s
      | At_stop_close k v \<Rightarrow> stop_step (pc th) a (ctx_done th) s
      | At_kill_handle \<Rightarrow> kill_step (pc th) a s
      | At_kill_signal \<Rightarrow> kill_step (pc th) a s
      | At_kill_recv \<Rightarrow> kill_step (pc th) a s
      | At_kill_close v \<Rightarrow> kill_step (pc th) a s
      | At_Do_store r \<Rightarrow> Do_step (pc th) a (call th) s
      | At_Do_return \<Rightarrow> Do_step (pc th) a (call th) s
      | At_Restart_launch \<Rightarrow> Restart_step (pc th) a s
      | Returned r \<Rightarrow> None
      | Restarted r \<Rightarrow> None)"

section \<open>Runs\<close>

text \<open>
  A label is one event of a run: a caller invokes a public method as task \<open>t\<close>, the
  context of task \<open>t\<close> becomes done, or task \<open>t\<close> performs its next atomic action.
  \<open>step\<close> is \<open>None\<close> when the event cannot happen in the state: the task blocks, has
  returned or does not exist, or the program has panicked.
\<close>

datatype label = Invoke nat call | Cancel nat | Act nat answer

definition entry :: "call \<Rightarrow> pc" where
  "entry c =
     (case c of
        Go_wait \<Rightarrow> At_wait_os
      | Call_Wait \<Rightarrow> At_Wait_select
      | Call_Stop \<Rightarrow> At_Do Body_stop
      | Call_Kill \<Rightarrow> At_Do Body_kill
      | Call_Restart \<Rightarrow> At_Do Body_stop)"

definition step :: "label \<Rightarrow> system \<Rightarrow> system option" where
  "step l s =
     (if panic s \<noteq> None then None
      else case l of
        Invoke t c \<Rightarrow>
          (if tasks s t \<noteq> None \<or> c = Go_wait then None
           else Some (s\<lparr>tasks := (tasks s)(t \<mapsto> \<lparr>call = c, pc = entry c, ctx_done = False\<rparr>)\<rparr>))
      | Cancel t \<Rightarrow>
          (case tasks s t of
             None \<Rightarrow> None
           | Some th \<Rightarrow> Some (s\<lparr>tasks := (tasks s)(t \<mapsto> th\<lparr>ctx_done := True\<rparr>)\<rparr>))
      | Act t a \<Rightarrow>
          (case tasks s t of
             None \<Rightarrow> None
           | Some th \<Rightarrow>
               (case act a th s of
                  None \<Rightarrow> None
                | Some (q, s') \<Rightarrow> Some (s'\<lparr>tasks := (tasks s')(t \<mapsto> th\<lparr>pc := q\<rparr>)\<rparr>))))"

fun run :: "label list \<Rightarrow> system \<Rightarrow> system option" where
  "run [] s = Some s"
| "run (l # ls) s = (case step l s of None \<Rightarrow> None | Some s' \<Rightarrow> run ls s')"

text \<open>
  \<^verbatim>\<open>Cmd.Start\<close> (src/command.go, lines 59-66): on a failed launch the error and no
  controller; otherwise the controller of \<^verbatim>\<open>newProcess\<close> with the goroutine
  \<^verbatim>\<open>go p.wait()\<close> as its task 0.
\<close>

definition controller :: "Cmd \<Rightarrow> system" where
  "controller c =
     \<lparr>proc = newProcess c,
      tasks = Map.empty(0 \<mapsto> \<lparr>call = Go_wait, pc = entry Go_wait, ctx_done = False\<rparr>),
      panic = None, waits = 0, sends = 0, closes = 0, bodies = 0, outcomes = []\<rparr>"

definition Start :: "error + nat \<Rightarrow> Cmd \<Rightarrow> error + system" where
  "Start l c = (case exec_Start l c of Inl e \<Rightarrow> Inl e | Inr c' \<Rightarrow> Inr (controller c'))"

text \<open>
  \<^verbatim>\<open>New\<close> (src/command.go, lines 21-29), with the environment of the calling process as
  a parameter and the standard streams as the descriptors 0, 1 and 2.
\<close>

definition New :: "string list \<Rightarrow> string \<Rightarrow> Exec" where
  "New environ dir =
     \<lparr>exec_Dir = dir, exec_Env = environ, exec_Stderr = Some 2, exec_Stdout = Some 1,
      exec_Stdin = Some 0\<rparr>"

text \<open>
  The program point of task \<open>t\<close> and the exit channel at the end of a run; \<open>None\<close> when
  the run is not possible (or the task does not exist).
\<close>

definition at :: "system option \<Rightarrow> nat \<Rightarrow> pc option" where
  "at r t = (case r of None \<Rightarrow> None | Some s \<Rightarrow> map_option pc (tasks s t))"

definition slot :: "system option \<Rightarrow> chan option" where
  "slot r = map_option (\<lambda>s. exitCh (proc s)) r"

text \<open>
  Commands used as concrete inputs. \<^verbatim>\<open>shellCommand\<close> is the helper of the test suite
  (src/unnamed/part_000, lines 155-161, the branch for Unix):
  \<^verbatim>\<open>cmd.Command("sh", "-c", script)\<close>.
  \<open>sh_exit0\<close> is such a command after a successful launch, and \<open>bare_true\<close> a started
  command that was built without \<^verbatim>\<open>exec.Command\<close> and has only its path set
  (\<^verbatim>\<open>&Cmd{Path: "/bin/true"}\<close>: the standard library runs it with \<^verbatim>\<open>Args\<close> empty).
\<close>

definition shellCommand :: "string option \<Rightarrow> Exec \<Rightarrow> string \<Rightarrow> Cmd" where
  "shellCommand look c script = Command look c ''sh'' [''-c'', script]"

definition sh_exit0 :: Cmd where
  "sh_exit0 = (shellCommand (Some ''/bin/sh'') (New [] []) ''exit 0'')\<lparr>Process := Some 4711\<rparr>"

definition bare_true :: Cmd where
  "bare_true =
     \<lparr>Path = ''/bin/true'', Args = [], Env = [], Dir = [], Stdin = None, Stdout = None,
      Stderr = None, ExtraFiles = [], Process = Some 4712\<rparr>"

text \<open>Errors used as concrete inputs: exits by a signal, by a status, a refused signal.\<close>

definition err_killed :: error where
  "err_killed = GoError ''signal: killed'' False"

definition err_interrupt :: error where
  "err_interrupt = GoError ''signal: interrupt'' False"

definition err_exit7 :: error where
  "err_exit7 = GoError ''exit status 7'' False"

definition err_perm :: error where
  "err_perm = GoError ''operation not permitted'' False"

section \<open>Invariants of the reachable states\<close>

text \<open>
  Classes of program points: inside \<^verbatim>\<open>wait\<close>; about to close the exit channel; about
  to hand the result of the guarded function to the once; anywhere inside the function
  guarded by the once (\<^verbatim>\<open>stop\<close> or \<^verbatim>\<open>kill\<close>, up to the store of its result).
\<close>

fun reaper_pc :: "pc \<Rightarrow> bool" where
  "reaper_pc At_wait_os = True"
| "reaper_pc (At_wait_send e) = True"
| "reaper_pc _ = False"

fun closing :: "pc \<Rightarrow> bool" where
  "closing (At_stop_close k v) = True"
| "closing (At_kill_close v) = True"
| "closing _ = False"

fun storing :: "pc \<Rightarrow> bool" where
  "storing (At_Do_store r) = True"
| "storing _ = False"

fun in_body :: "pc \<Rightarrow> bool" where
  "in_body At_stop_handle = True"
| "in_body At_stop_interrupt = True"
| "in_body At_stop_escalate = True"
| "in_body (At_stop_select k) = True"
| "in_body (At_stop_close k v) = True"
| "in_body At_kill_handle = True"
| "in_body At_kill_signal = True"
| "in_body At_kill_recv = True"
| "in_body (At_kill_close v) = True"
| "in_body (At_Do_store r) = True"
| "in_body _ = False"

definition all_tasks :: "(nat \<Rightarrow> task \<Rightarrow> bool) \<Rightarrow> system \<Rightarrow> bool" where
  "all_tasks P s \<longleftrightarrow> (\<forall>t th. tasks s t = Some th \<longrightarrow> P t th)"

text \<open>
  The goroutine of \<^verbatim>\<open>wait\<close> is task 0 and no other task; it is before its OS wait,
  between the wait and the send, or finished, and the counters of waits and sends say
  which. A task at the \<^verbatim>\<open>select\<close> of \<^verbatim>\<open>Wait\<close> is a call of \<^verbatim>\<open>Wait\<close>.
\<close>

definition stage :: "system \<Rightarrow> pc \<Rightarrow> bool" where
  "stage s q \<longleftrightarrow>
     q = At_wait_os \<and> waits s = 0 \<and> sends s = 0
   \<or> (\<exists>e. q = At_wait_send e) \<and> waits s = 1 \<and> sends s = 0
   \<or> q = Returned None \<and> waits s = 1 \<and> sends s = 1"

definition reaper_task :: "system \<Rightarrow> nat \<Rightarrow> task \<Rightarrow> bool" where
  "reaper_task s t th \<longleftrightarrow>
     (call th = Go_wait \<longleftrightarrow> t = 0)
   \<and> (reaper_pc (pc th) \<longrightarrow> call th = Go_wait)
   \<and> (pc th = At_Wait_select \<longrightarrow> call th = Call_Wait)
   \<and> (call th = Go_wait \<longrightarrow> stage s (pc th))"

definition reaper_inv :: "system \<Rightarrow> bool" where
  "reaper_inv s \<longleftrightarrow> tasks s 0 \<noteq> None \<and> all_tasks (reaper_task s) s"

text \<open>
  The once guard. \<open>rho\<close> is the task that runs the guarded function, if any: a task is
  inside the function exactly when it is \<open>rho\<close>, the once is \<open>Running\<close> exactly when
  there is such a task, and the history variables follow the once: no entry while it is
  \<open>Fresh\<close> and one afterwards, no outcome until it is \<open>Finished\<close> and then the recorded
  error. A call of \<^verbatim>\<open>Stop\<close> or \<^verbatim>\<open>Kill\<close> that has returned has returned that outcome.
\<close>

definition once_task :: "nat option \<Rightarrow> system \<Rightarrow> nat \<Rightarrow> task \<Rightarrow> bool" where
  "once_task rho s t th \<longleftrightarrow>
     (in_body (pc th) \<longleftrightarrow> rho = Some t)
   \<and> (pc th = At_Do_return \<longrightarrow> o_once (once (proc s)) = Finished)
   \<and> (\<forall>r. pc th = Returned r \<and> (call th = Call_Stop \<or> call th = Call_Kill) \<longrightarrow>
          outcomes s = [r])"

definition once_global :: "nat option \<Rightarrow> system \<Rightarrow> bool" where
  "once_global rho s \<longleftrightarrow>
     (rho \<noteq> None \<longleftrightarrow> o_once (once (proc s)) = Running)
   \<and> (\<forall>t. rho = Some t \<longrightarrow> tasks s t \<noteq> None)
   \<and> (o_once (once (proc s)) = Fresh \<longrightarrow> bodies s = 0)
   \<and> (o_once (once (proc s)) \<noteq> Fresh \<longrightarrow> bodies s = 1)
   \<and> (o_once (once (proc s)) = Finished \<longrightarrow> outcomes s = [err (once (proc s))])
   \<and> (o_once (once (proc s)) \<noteq> Finished \<longrightarrow> outcomes s = [])"

definition once_inv :: "nat option \<Rightarrow> system \<Rightarrow> bool" where
  "once_inv rho s \<longleftrightarrow> once_global rho s \<and> all_tasks (once_task rho s) s"

text \<open>
  The exit channel has capacity one and holds at most one value; before the send it is
  empty and open; a task about to close it has drained it after the send.
\<close>

definition slot_task :: "system \<Rightarrow> task \<Rightarrow> bool" where
  "slot_task s th \<longleftrightarrow> (closing (pc th) \<longrightarrow> sends s \<noteq> 0 \<and> buf (exitCh (proc s)) = [])"

definition slot_global :: "system \<Rightarrow> bool" where
  "slot_global s \<longleftrightarrow>
     cap (exitCh (proc s)) = 1
   \<and> length (buf (exitCh (proc s))) \<le> 1
   \<and> (sends s = 0 \<longrightarrow> buf (exitCh (proc s)) = [] \<and> \<not> closed (exitCh (proc s)))"

definition slot_inv :: "system \<Rightarrow> bool" where
  "slot_inv s \<longleftrightarrow> slot_global s \<and> all_tasks (\<lambda>t. slot_task s) s"

text \<open>
  A closed exit channel is empty, was closed once, and the once has been entered; once
  it is closed, the task inside the guarded function is past its close.
\<close>

definition close_task :: "system \<Rightarrow> task \<Rightarrow> bool" where
  "close_task s th \<longleftrightarrow> (in_body (pc th) \<and> closed (exitCh (proc s)) \<longrightarrow> storing (pc th))"

definition close_global :: "system \<Rightarrow> bool" where
  "close_global s \<longleftrightarrow>
     (closed (exitCh (proc s)) \<longrightarrow>
        buf (exitCh (proc s)) = [] \<and> closes s = 1 \<and> o_once (once (proc s)) \<noteq> Fresh)
   \<and> (\<not> closed (exitCh (proc s)) \<longrightarrow> closes s = 0)"

definition close_inv :: "system \<Rightarrow> bool" where
  "close_inv s \<longleftrightarrow> close_global s \<and> all_tasks (\<lambda>t. close_task s) s"

definition inv :: "nat option \<Rightarrow> system \<Rightarrow> bool" where
  "inv rho s \<longleftrightarrow>
     reaper_inv s \<and> once_inv rho s \<and> slot_inv s \<and> close_inv s
   \<and> (panic s = None \<or> panic s = Some Slice_bounds)"


text \<open>
  An exit channel that will never deliver: it is empty and open, and no task is inside
  \<^verbatim>\<open>wait\<close> (nothing will be sent) or about to close it.
\<close>

definition dead_slot :: "system \<Rightarrow> bool" where
  "dead_slot s \<longleftrightarrow>
     buf (exitCh (proc s)) = [] \<and> \<not> closed (exitCh (proc s))
   \<and> all_tasks (\<lambda>t th. \<not> reaper_pc (pc th) \<and> \<not> closing (pc th)) s"

section \<open>Transitions\<close>

lemmas run_defs = step_def act_def wait_step_def stop_step_def kill_step_def Do_step_def
  Wait_step_def Restart_step_def recv_exit_def set_exitCh_def set_once_def body_entry_def
  after_Do_def entry_def at_def slot_def

lemmas chan_defs = chan_send_def chan_recv_def chan_close_def make_chan_def

lemma isProcessDone_simps:
  "isProcessDone None = False" "isProcessDone (Some x) = Is_ErrProcessDone x"
  by (simp_all add: isProcessDone_def)

lemma isInterrupt_simps:
  "isInterrupt None = False" "isInterrupt (Some x) = (Error x = ''signal: interrupt'')"
  by (simp_all add: isInterrupt_def)

lemma isKilled_simps:
  "isKilled None = False" "isKilled (Some x) = (Error x = ''signal: killed'')"
  by (simp_all add: isKilled_def)

lemma isProcessDone_SomeD: "isProcessDone e \<Longrightarrow> \<exists>x. e = Some x \<and> Is_ErrProcessDone x"
  by (cases e) (simp_all add: isProcessDone_def)

lemmas is_simps = isProcessDone_simps isInterrupt_simps isKilled_simps

lemmas fixture_defs = sh_exit0_def bare_true_def shellCommand_def Command_def exec_Command_def
  New_def controller_def newProcess_def ErrProcessDone_def err_killed_def
  err_interrupt_def err_exit7_def err_perm_def

lemma run_append: "run (xs @ ys) s = (case run xs s of None \<Rightarrow> None | Some s' \<Rightarrow> run ys s')"
  by (induction xs arbitrary: s) (auto split: option.splits)

lemma chan_send_ReadyD:
  "chan_send v c = Ready c' \<Longrightarrow> \<not> closed c \<and> length (buf c) < cap c \<and> c' = c\<lparr>buf := buf c @ [v]\<rparr>"
  by (auto simp: chan_send_def split: if_splits)

lemma chan_send_PanicsD: "chan_send v c = Panics \<Longrightarrow> closed c"
  by (auto simp: chan_send_def split: if_splits)

lemma chan_close_ReadyD: "chan_close c = Ready c' \<Longrightarrow> \<not> closed c \<and> c' = c\<lparr>closed := True\<rparr>"
  by (auto simp: chan_close_def split: if_splits)

lemma chan_close_PanicsD: "chan_close c = Panics \<Longrightarrow> closed c"
  by (auto simp: chan_close_def split: if_splits)

lemma chan_recv_ReadyD:
  "chan_recv c = Ready (v, c') \<Longrightarrow>
     cap c' = cap c \<and> closed c' = closed c
     \<and> (buf c = v # buf c' \<or> buf c = [] \<and> closed c \<and> v = None \<and> buf c' = [])"
  by (auto simp: chan_recv_def split: list.splits if_splits)

text \<open>All transitions of a task, one case per atomic action.\<close>

lemma act_cases [consumes 1, case_names os send send_panic Wait_done Wait_recv Do_enter Do_finished
    stop_handle stop_interrupt stop_escalate stop_recv stop_done stop_close stop_close_panic
    kill_handle kill_signal kill_recv kill_close kill_close_panic Do_store Do_return
    Restart_launch Restart_panic]:
  assumes "act a th s = Some (q, sh)"
  obtains
    e where "pc th = At_wait_os" "a = Returns e" "q = At_wait_send e" "sh = s\<lparr>waits := Suc (waits s)\<rparr>"
  | e c where "pc th = At_wait_send e" "a = Plain" "chan_send e (exitCh (proc s)) = Ready c"
      "q = Returned None" "sh = (set_exitCh c s)\<lparr>sends := Suc (sends s)\<rparr>"
  | e where "pc th = At_wait_send e" "a = Plain" "chan_send e (exitCh (proc s)) = Panics"
      "q = At_wait_send e" "sh = s\<lparr>panic := Some Send_on_closed\<rparr>"
  | "pc th = At_Wait_select" "a = Branch_done" "ctx_done th" "q = At_Do Body_kill" "sh = s"
  | v c where "pc th = At_Wait_select" "a = Branch_recv" "chan_recv (exitCh (proc s)) = Ready (v, c)"
      "q = Returned v" "sh = set_exitCh c s"
  | b where "pc th = At_Do b" "a = Plain" "o_once (once (proc s)) = Fresh" "q = body_entry b"
      "sh = (set_once ((once (proc s))\<lparr>o_once := Running\<rparr>) s)\<lparr>bodies := Suc (bodies s)\<rparr>"
  | b where "pc th = At_Do b" "a = Plain" "o_once (once (proc s)) = Finished" "q = At_Do_return" "sh = s"
  | "pc th = At_stop_handle" "a = Plain"
      "q = (if Process (cmd (proc s)) = None then At_Do_store None else At_stop_interrupt)" "sh = s"
  | e where "pc th = At_stop_interrupt" "a = Returns e"
      "q = (if e = None then At_stop_select By_interrupt
            else if isProcessDone e then At_Do_store None else At_stop_escalate)" "sh = s"
  | e where "pc th = At_stop_escalate" "a = Returns e"
      "q = (if e = None then At_stop_select By_kill else At_Do_store e)" "sh = s"
  | k v c where "pc th = At_stop_select k" "a = Branch_recv" "chan_recv (exitCh (proc s)) = Ready (v, c)"
      "q = At_stop_close k v" "sh = set_exitCh c s"
  | k where "pc th = At_stop_select k" "a = Branch_done" "ctx_done th" "q = At_kill_handle" "sh = s"
  | k v c where "pc th = At_stop_close k v" "a = Plain" "chan_close (exitCh (proc s)) = Ready c"
      "q = At_Do_store (if v \<noteq> None \<and> \<not> expectError k v then v else None)"
      "sh = (set_exitCh c s)\<lparr>closes := Suc (closes s)\<rparr>"
  | k v where "pc th = At_stop_close k v" "a = Plain" "chan_close (exitCh (proc s)) = Panics"
      "q = At_stop_close k v" "sh = s\<lparr>panic := Some Close_of_closed\<rparr>"
  | "pc th = At_kill_handle" "a = Plain"
      "q = (if Process (cmd (proc s)) = None then At_Do_store None else At_kill_signal)" "sh = s"
  | e where "pc th = At_kill_signal" "a = Returns e"
      "q = (if e = None then At_kill_recv else if isProcessDone e then At_Do_store None else At_Do_store e)"
      "sh = s"
  | v c where "pc th = At_kill_recv" "a = Branch_recv" "chan_recv (exitCh (proc s)) = Ready (v, c)"
      "q = At_kill_close v" "sh = set_exitCh c s"
  | v c where "pc th = At_kill_close v" "a = Plain" "chan_close (exitCh (proc s)) = Ready c"
      "q = At_Do_store (if v \<noteq> None \<and> \<not> isKilled v then v else None)"
      "sh = (set_exitCh c s)\<lparr>closes := Suc (closes s)\<rparr>"
  | v where "pc th = At_kill_close v" "a = Plain" "chan_close (exitCh (proc s)) = Panics"
      "q = At_kill_close v" "sh = s\<lparr>panic := Some Close_of_closed\<rparr>"
  | r where "pc th = At_Do_store r" "a = Plain" "q = At_Do_return"
      "sh = (set_once \<lparr>o_once = Finished, err = r\<rparr> s)\<lparr>outcomes := outcomes s @ [r]\<rparr>"
  | "pc th = At_Do_return" "a = Plain" "q = after_Do (call th) (err (once (proc s)))" "sh = s"
  | look l nx where "pc th = At_Restart_launch" "a = Launches look l"
      "Restart_next look (cmd (proc s)) = Some nx" "q = Restarted (exec_Start l nx)" "sh = s"
  | look l where "pc th = At_Restart_launch" "a = Launches look l"
      "Restart_next look (cmd (proc s)) = None" "q = At_Restart_launch" "sh = s\<lparr>panic := Some Slice_bounds\<rparr>"
proof (cases "pc th")
  case At_wait_os
  with assms have "\<exists>e. a = Returns e \<and> q = At_wait_send e \<and> sh = s\<lparr>waits := Suc (waits s)\<rparr>"
    by (auto simp: act_def wait_step_def split: answer.splits if_splits)
  with At_wait_os that(1) show ?thesis by blast
next
  case (At_wait_send e)
  with assms have "a = Plain \<and>
      ((\<exists>c. chan_send e (exitCh (proc s)) = Ready c \<and> q = Returned None
            \<and> sh = (set_exitCh c s)\<lparr>sends := Suc (sends s)\<rparr>)
       \<or> (chan_send e (exitCh (proc s)) = Panics \<and> q = At_wait_send e
            \<and> sh = s\<lparr>panic := Some Send_on_closed\<rparr>))"
    by (auto simp: act_def wait_step_def split: answer.splits attempt.splits if_splits)
  with At_wait_send that(2,3) show ?thesis by blast
next
  case At_Wait_select
  with assms have "(a = Branch_done \<and> ctx_done th \<and> q = At_Do Body_kill \<and> sh = s)
       \<or> (\<exists>v c. a = Branch_recv \<and> chan_recv (exitCh (proc s)) = Ready (v, c) \<and> q = Returned v
            \<and> sh = set_exitCh c s)"
    by (auto simp: act_def Wait_step_def recv_exit_def split: answer.splits attempt.splits if_splits)
  with At_Wait_select that(4,5) show ?thesis by blast
next
  case (At_Do b)
  with assms have "a = Plain \<and>
      ((o_once (once (proc s)) = Fresh \<and> q = body_entry b
          \<and> sh = (set_once ((once (proc s))\<lparr>o_once := Running\<rparr>) s)\<lparr>bodies := Suc (bodies s)\<rparr>)
       \<or> (o_once (once (proc s)) = Finished \<and> q = At_Do_return \<and> sh = s))"
    by (auto simp: act_def Do_step_def split: answer.splits Once.splits if_splits)
  with At_Do that(6,7) show ?thesis by blast
next
  case At_stop_handle
  with assms have "a = Plain
      \<and> q = (if Process (cmd (proc s)) = None then At_Do_store None else At_stop_interrupt) \<and> sh = s"
    by (auto simp: act_def stop_step_def split: answer.splits if_splits)
  with At_stop_handle that(8) show ?thesis by blast
next
  case At_stop_interrupt
  with assms have "\<exists>e. a = Returns e
      \<and> q = (if e = None then At_stop_select By_interrupt
              else if isProcessDone e then At_Do_store None else At_stop_escalate) \<and> sh = s"
    by (auto simp: act_def stop_step_def split: answer.splits if_splits)
  with At_stop_interrupt that(9) show ?thesis by blast
next
  case At_stop_escalate
  with assms have "\<exists>e. a = Returns e
      \<and> q = (if e = None then At_stop_select By_kill else At_Do_store e) \<and> sh = s"
    by (auto simp: act_def stop_step_def split: answer.splits if_splits)
  with At_stop_escalate that(10) show ?thesis by blast
next
  case (At_stop_select k)
  with assms have "(\<exists>v c. a = Branch_recv \<and> chan_recv (exitCh (proc s)) = Ready (v, c)
          \<and> q = At_stop_close k v \<and> sh = set_exitCh c s)
       \<or> (a = Branch_done \<and> ctx_done th \<and> q = At_kill_handle \<and> sh = s)"
    by (auto simp: act_def stop_step_def recv_exit_def split: answer.splits attempt.splits if_splits)
  with At_stop_select that(11,12) show ?thesis by blast
next
  case (At_stop_close k v)
  with assms have "a = Plain \<and>
      ((\<exists>c. chan_close (exitCh (proc s)) = Ready c
          \<and> q = At_Do_store (if v \<noteq> None \<and> \<not> expectError k v then v else None)
          \<and> sh = (set_exitCh c s)\<lparr>closes := Suc (closes s)\<rparr>)
       \<or> (chan_close (exitCh (proc s)) = Panics \<and> q = At_stop_close k v
          \<and> sh = s\<lparr>panic := Some Close_of_closed\<rparr>))"
    by (auto simp: act_def stop_step_def split: answer.splits attempt.splits if_splits)
  with At_stop_close that(13,14) show ?thesis by blast
next
  case At_kill_handle
  with assms have "a = Plain
      \<and> q = (if Process (cmd (proc s)) = None then At_Do_store None else At_kill_signal) \<and> sh = s"
    by (auto simp: act_def kill_step_def split: answer.splits if_splits)
  with At_kill_handle that(15) show ?thesis by blast
next
  case At_kill_signal
  with assms have "\<exists>e. a = Returns e
      \<and> q = (if e = None then At_kill_recv
              else if isProcessDone e then At_Do_store None else At_Do_store e) \<and> sh = s"
    by (auto simp: act_def kill_step_def split: answer.splits if_splits)
  with At_kill_signal that(16) show ?thesis by blast
next
  case At_kill_recv
  with assms have "\<exists>v c. a = Branch_recv \<and> chan_recv (exitCh (proc s)) = Ready (v, c)
          \<and> q = At_kill_close v \<and> sh = set_exitCh c s"
    by (auto simp: act_def kill_step_def recv_exit_def split: answer.splits attempt.splits if_splits)
  with At_kill_recv that(17) show ?thesis by blast
next
  case (At_kill_close v)
  with assms have "a = Plain \<and>
      ((\<exists>c. chan_close (exitCh (proc s)) = Ready c
          \<and> q = At_Do_store (if v \<noteq> None \<and> \<not> isKilled v then v else None)
          \<and> sh = (set_exitCh c s)\<lparr>closes := Suc (closes s)\<rparr>)
       \<or> (chan_close (exitCh (proc s)) = Panics \<and> q = At_kill_close v
          \<and> sh = s\<lparr>panic := Some Close_of_closed\<rparr>))"
    by (auto simp: act_def kill_step_def split: answer.splits attempt.splits if_splits)
  with At_kill_close that(18,19) show ?thesis by blast
next
  case (At_Do_store r)
  with assms have "a = Plain \<and> q = At_Do_return
      \<and> sh = (set_once \<lparr>o_once = Finished, err = r\<rparr> s)\<lparr>outcomes := outcomes s @ [r]\<rparr>"
    by (auto simp: act_def Do_step_def split: answer.splits if_splits)
  with At_Do_store that(20) show ?thesis by blast
next
  case At_Do_return
  with assms have "a = Plain \<and> q = after_Do (call th) (err (once (proc s))) \<and> sh = s"
    by (auto simp: act_def Do_step_def split: answer.splits if_splits)
  with At_Do_return that(21) show ?thesis by blast
next
  case At_Restart_launch
  with assms have "\<exists>look l. a = Launches look l \<and>
      ((\<exists>nx. Restart_next look (cmd (proc s)) = Some nx \<and> q = Restarted (exec_Start l nx) \<and> sh = s)
       \<or> (Restart_next look (cmd (proc s)) = None \<and> q = At_Restart_launch
           \<and> sh = s\<lparr>panic := Some Slice_bounds\<rparr>))"
    by (auto simp: act_def Restart_step_def split: answer.splits option.splits if_splits)
  with At_Restart_launch that(22,23) show ?thesis by blast
next
  case (Returned r)
  with assms show ?thesis by (simp add: act_def)
next
  case (Restarted r)
  with assms show ?thesis by (simp add: act_def)
qed


lemma act_tasks: "act a th s = Some (q, sh) \<Longrightarrow> tasks sh = tasks s"
  by (erule act_cases) (simp_all add: set_exitCh_def set_once_def)

lemma step_cases [consumes 1, case_names Invoke Cancel Act]:
  assumes "step l s = Some s'"
  obtains
    t c where "l = Invoke t c" "panic s = None" "tasks s t = None" "c \<noteq> Go_wait"
      "s' = s\<lparr>tasks := (tasks s)(t \<mapsto> \<lparr>call = c, pc = entry c, ctx_done = False\<rparr>)\<rparr>"
  | t th where "l = Cancel t" "panic s = None" "tasks s t = Some th"
      "s' = s\<lparr>tasks := (tasks s)(t \<mapsto> th\<lparr>ctx_done := True\<rparr>)\<rparr>"
  | t a th q sh where "l = Act t a" "panic s = None" "tasks s t = Some th" "act a th s = Some (q, sh)"
      "s' = sh\<lparr>tasks := (tasks s)(t \<mapsto> th\<lparr>pc := q\<rparr>)\<rparr>"
proof (cases l)
  case (Invoke t c)
  with assms that(1) show ?thesis
    by (auto simp: step_def split: if_splits)
next
  case (Cancel t)
  with assms that(2) show ?thesis
    by (auto simp: step_def split: if_splits option.splits)
next
  case (Act t a)
  with assms obtain th q sh where "panic s = None" "tasks s t = Some th" "act a th s = Some (q, sh)"
      "s' = sh\<lparr>tasks := (tasks sh)(t \<mapsto> th\<lparr>pc := q\<rparr>)\<rparr>"
    by (auto simp: step_def split: if_splits option.splits)
  with Act that(3) act_tasks show ?thesis by metis
qed

lemma all_tasksD: "all_tasks P s \<Longrightarrow> tasks s t = Some th \<Longrightarrow> P t th"
  by (simp add: all_tasks_def)

lemma all_tasks_update:
  assumes "all_tasks P s"
      and "tasks s' = (tasks s)(t \<mapsto> th')"
      and "P' t th'"
      and "\<And>u thu. u \<noteq> t \<Longrightarrow> tasks s u = Some thu \<Longrightarrow> P u thu \<Longrightarrow> P' u thu"
  shows "all_tasks P' s'"
  using assms by (auto simp: all_tasks_def)

lemmas pc_moves = set_exitCh_def set_once_def body_entry_def after_Do_def

subsection \<open>The goroutine of wait\<close>

lemma reaper_inv_controller: "reaper_inv (controller c)"
  by (simp add: reaper_inv_def all_tasks_def reaper_task_def stage_def controller_def entry_def)

lemma reaper_invD: "reaper_inv s \<Longrightarrow> tasks s t = Some th \<Longrightarrow> reaper_task s t th"
  unfolding reaper_inv_def by (blast dest: all_tasksD)

lemma reaper_task_other:
  "reaper_task s u thu \<Longrightarrow> u \<noteq> 0 \<Longrightarrow> reaper_task s' u thu"
  by (simp add: reaper_task_def)

lemma reaper_task_same:
  "reaper_task s u thu \<Longrightarrow> sends s' = sends s \<Longrightarrow> waits s' = waits s \<Longrightarrow> reaper_task s' u thu"
  by (simp add: reaper_task_def stage_def)

lemma reaper_inv_update:
  assumes i: "reaper_inv s"
      and s': "tasks s' = (tasks s)(t \<mapsto> th')"
      and t: "reaper_task s' t th'"
      and o: "t \<noteq> 0 \<Longrightarrow> sends s' = sends s \<and> waits s' = waits s"
  shows "reaper_inv s'"
proof -
  have "all_tasks (reaper_task s') s'"
  proof (rule all_tasks_update [where P = "reaper_task s" and P' = "reaper_task s'", OF _ s' t])
    show "all_tasks (reaper_task s) s" using i by (simp add: reaper_inv_def)
    fix u thu assume u: "u \<noteq> t" "tasks s u = Some thu" "reaper_task s u thu"
    show "reaper_task s' u thu"
    proof (cases "u = 0")
      case True
      with u o show ?thesis by (simp add: reaper_task_same)
    next
      case False
      with u show ?thesis by (simp add: reaper_task_other)
    qed
  qed
  moreover from i s' have "tasks s' 0 \<noteq> None" by (simp add: reaper_inv_def)
  ultimately show ?thesis by (simp add: reaper_inv_def)
qed

lemma reaper_inv_move:
  assumes i: "reaper_inv s" and t: "tasks s t = Some th"
      and a: "\<not> reaper_pc (pc th)" "pc th \<noteq> Returned None" "\<not> reaper_pc q" "q \<noteq> At_Wait_select"
      and s': "tasks s' = (tasks s)(t \<mapsto> th\<lparr>pc := q\<rparr>)"
      and o: "sends s' = sends s" "waits s' = waits s"
  shows "reaper_inv s'"
proof (rule reaper_inv_update [OF i s'])
  from reaper_invD [OF i t] a show "reaper_task s' t (th\<lparr>pc := q\<rparr>)"
    by (auto simp: reaper_task_def stage_def)
qed (simp add: o)

lemma reaper_inv_step:
  assumes i: "reaper_inv s" and st: "step l s = Some s'"
  shows "reaper_inv s'"
  using st
proof (cases rule: step_cases)
  case (Invoke t c)
  have "reaper_inv s'"
  proof (rule reaper_inv_update [OF i])
    show "tasks s' = (tasks s)(t \<mapsto> \<lparr>call = c, pc = entry c, ctx_done = False\<rparr>)"
      using Invoke by simp
    from i Invoke have "t \<noteq> 0" by (cases t) (auto simp: reaper_inv_def)
    with Invoke show "reaper_task s' t \<lparr>call = c, pc = entry c, ctx_done = False\<rparr>"
      by (cases c) (simp_all add: reaper_task_def entry_def)
  qed (use Invoke in simp)
  then show ?thesis .
next
  case (Cancel t th)
  show ?thesis
  proof (rule reaper_inv_update [OF i])
    show "tasks s' = (tasks s)(t \<mapsto> th\<lparr>ctx_done := True\<rparr>)" using Cancel by simp
    from reaper_invD [OF i Cancel(3)] Cancel show "reaper_task s' t (th\<lparr>ctx_done := True\<rparr>)"
      by (simp add: reaper_task_def stage_def)
  qed (use Cancel in simp)
next
  case (Act t a th q sh)
  note rt = reaper_invD [OF i Act(3)]
  have tk: "tasks s' = (tasks s)(t \<mapsto> th\<lparr>pc := q\<rparr>)" using Act by simp
  from Act(4) show ?thesis
  proof (cases rule: act_cases)
    case (os e)
    show ?thesis
    proof (rule reaper_inv_update [OF i tk])
      from rt os Act(5) show "reaper_task s' t (th\<lparr>pc := q\<rparr>)"
        by (auto simp: reaper_task_def stage_def)
      from rt os show "t \<noteq> 0 \<Longrightarrow> sends s' = sends s \<and> waits s' = waits s"
        by (auto simp: reaper_task_def)
    qed
  next
    case (send e c)
    show ?thesis
    proof (rule reaper_inv_update [OF i tk])
      from rt send Act(5) show "reaper_task s' t (th\<lparr>pc := q\<rparr>)"
        by (auto simp: reaper_task_def stage_def set_exitCh_def)
      from rt send show "t \<noteq> 0 \<Longrightarrow> sends s' = sends s \<and> waits s' = waits s"
        by (auto simp: reaper_task_def)
    qed
  next
    case (send_panic e)
    show ?thesis
    proof (rule reaper_inv_update [OF i tk])
      from rt send_panic Act(5) show "reaper_task s' t (th\<lparr>pc := q\<rparr>)"
        by (auto simp: reaper_task_def stage_def)
    qed (use send_panic Act(5) in simp)
  qed (rule reaper_inv_move [OF i Act(3) _ _ _ _ tk];
       simp add: Act(5) pc_moves split: body.splits call.splits option.splits)+
qed

subsection \<open>The once guard\<close>

lemma once_inv_controller: "once_inv None (controller c)"
  by (simp add: once_inv_def once_global_def all_tasks_def once_task_def controller_def entry_def
      newProcess_def)

lemma once_invD: "once_inv rho s \<Longrightarrow> tasks s t = Some th \<Longrightarrow> once_task rho s t th"
  unfolding once_inv_def by (blast dest: all_tasksD)

lemma once_inv_update:
  assumes i: "once_inv rho s"
      and s': "tasks s' = (tasks s)(t \<mapsto> th')"
      and g: "once_global rho' s'"
      and t: "once_task rho' s' t th'"
      and o: "\<And>u thu. u \<noteq> t \<Longrightarrow> once_task rho s u thu \<Longrightarrow> once_task rho' s' u thu"
  shows "once_inv rho' s'"
proof -
  have "all_tasks (once_task rho' s') s'"
  proof (rule all_tasks_update [where P = "once_task rho s" and P' = "once_task rho' s'", OF _ s' t])
    show "all_tasks (once_task rho s) s" using i by (simp add: once_inv_def)
  qed (simp add: o)
  with g show ?thesis by (simp add: once_inv_def)
qed

lemma once_inv_move:
  assumes i: "once_inv rho s" and t: "tasks s t = Some th"
      and a: "in_body q = in_body (pc th)" "q \<noteq> At_Do_return"
        "\<forall>r. q = Returned r \<longrightarrow> call th \<noteq> Call_Stop \<and> call th \<noteq> Call_Kill"
      and s': "tasks s' = (tasks s)(t \<mapsto> th\<lparr>pc := q\<rparr>)"
      and o: "once (proc s') = once (proc s)" "bodies s' = bodies s" "outcomes s' = outcomes s"
  shows "once_inv rho s'"
proof (rule once_inv_update [OF i s'])
  from i s' o show "once_global rho s'"
    by (auto simp: once_inv_def once_global_def)
  from once_invD [OF i t] a o show "once_task rho s' t (th\<lparr>pc := q\<rparr>)"
    by (auto simp: once_task_def)
  fix u thu assume "u \<noteq> t" "once_task rho s u thu"
  with o show "once_task rho s' u thu" by (simp add: once_task_def)
qed

lemma once_inv_step:
  assumes i: "once_inv rho s" and r: "reaper_inv s" and st: "step l s = Some s'"
  shows "\<exists>rho'. once_inv rho' s'"
  using st
proof (cases rule: step_cases)
  case (Invoke t c)
  have "once_inv rho s'"
  proof (rule once_inv_update [OF i])
    show "tasks s' = (tasks s)(t \<mapsto> \<lparr>call = c, pc = entry c, ctx_done = False\<rparr>)"
      using Invoke by simp
    from i Invoke show "once_global rho s'"
      by (auto simp: once_inv_def once_global_def)
    from i Invoke have "rho \<noteq> Some t" by (auto simp: once_inv_def once_global_def)
    then show "once_task rho s' t \<lparr>call = c, pc = entry c, ctx_done = False\<rparr>"
      by (cases c) (simp_all add: once_task_def entry_def)
    fix u thu assume "u \<noteq> t" "once_task rho s u thu"
    with Invoke show "once_task rho s' u thu" by (simp add: once_task_def)
  qed
  then show ?thesis ..
next
  case (Cancel t th)
  have "once_inv rho s'"
  proof (rule once_inv_update [OF i])
    show "tasks s' = (tasks s)(t \<mapsto> th\<lparr>ctx_done := True\<rparr>)" using Cancel by simp
    from i Cancel show "once_global rho s'"
      by (auto simp: once_inv_def once_global_def)
    from once_invD [OF i Cancel(3)] Cancel show "once_task rho s' t (th\<lparr>ctx_done := True\<rparr>)"
      by (simp add: once_task_def)
    fix u thu assume "u \<noteq> t" "once_task rho s u thu"
    with Cancel show "once_task rho s' u thu" by (simp add: once_task_def)
  qed
  then show ?thesis ..
next
  case (Act t a th q sh)
  note ot = once_invD [OF i Act(3)] and rt = reaper_invD [OF r Act(3)]
  from i have g: "once_global rho s" by (simp add: once_inv_def)
  have tk: "tasks s' = (tasks s)(t \<mapsto> th\<lparr>pc := q\<rparr>)" using Act by simp
  from Act(4) show ?thesis
  proof (cases rule: act_cases)
    case (send e c)
    from rt send have "call th = Go_wait" by (simp add: reaper_task_def)
    with send Act(5) have "once_inv rho s'"
      by (intro once_inv_move [OF i Act(3) _ _ _ tk]) (simp_all add: pc_moves)
    then show ?thesis ..
  next
    case (Wait_recv v c)
    from rt Wait_recv have "call th = Call_Wait" by (simp add: reaper_task_def)
    with Wait_recv Act(5) have "once_inv rho s'"
      by (intro once_inv_move [OF i Act(3) _ _ _ tk]) (simp_all add: pc_moves)
    then show ?thesis ..
  next
    case (Do_enter b)
    from g Do_enter have rho: "rho = None" by (auto simp: once_global_def)
    have "once_inv (Some t) s'"
    proof (rule once_inv_update [OF i tk])
      from g Do_enter Act(3,5) show "once_global (Some t) s'"
        by (auto simp: once_global_def pc_moves)
      from Do_enter Act(5) show "once_task (Some t) s' t (th\<lparr>pc := q\<rparr>)"
        by (cases b) (simp_all add: once_task_def pc_moves)
      fix u thu assume "u \<noteq> t" "once_task rho s u thu"
      with rho Do_enter Act(5) show "once_task (Some t) s' u thu"
        by (auto simp: once_task_def pc_moves)
    qed
    then show ?thesis ..
  next
    case (Do_finished b)
    have "once_inv rho s'"
    proof (rule once_inv_update [OF i tk])
      from g Do_finished Act(3,5) show "once_global rho s'"
        by (auto simp: once_global_def)
      from ot Do_finished Act(5) show "once_task rho s' t (th\<lparr>pc := q\<rparr>)"
        by (simp add: once_task_def)
      fix u thu assume "u \<noteq> t" "once_task rho s u thu"
      with Do_finished Act(5) show "once_task rho s' u thu"
        by (simp add: once_task_def)
    qed
    then show ?thesis ..
  next
    case (Do_store x)
    from ot Do_store have rho: "rho = Some t" by (simp add: once_task_def)
    with g have run: "o_once (once (proc s)) = Running" "outcomes s = []" "bodies s = 1"
      by (auto simp: once_global_def)
    have "once_inv None s'"
    proof (rule once_inv_update [OF i tk])
      from run Do_store Act(5) show "once_global None s'"
        by (auto simp: once_global_def pc_moves)
      from Do_store Act(5) show "once_task None s' t (th\<lparr>pc := q\<rparr>)"
        by (simp add: once_task_def pc_moves)
      fix u thu assume "u \<noteq> t" "once_task rho s u thu"
      with rho run Do_store Act(5) show "once_task None s' u thu"
        by (auto simp: once_task_def pc_moves)
    qed
    then show ?thesis ..
  next
    case Do_return
    from ot Do_return have fin: "o_once (once (proc s)) = Finished" by (simp add: once_task_def)
    with g have out: "outcomes s = [err (once (proc s))]" by (simp add: once_global_def)
    have "once_inv rho s'"
    proof (rule once_inv_update [OF i tk])
      from g Do_return Act(3,5) show "once_global rho s'"
        by (auto simp: once_global_def)
      from ot out Do_return Act(5) show "once_task rho s' t (th\<lparr>pc := q\<rparr>)"
        by (auto simp: once_task_def pc_moves split: call.splits option.splits)
      fix u thu assume "u \<noteq> t" "once_task rho s u thu"
      with Do_return Act(5) show "once_task rho s' u thu"
        by (simp add: once_task_def)
    qed
    then show ?thesis ..
  qed (rule exI [of _ rho], rule once_inv_move [OF i Act(3) _ _ _ tk];
       simp add: Act(5) pc_moves)+
qed

subsection \<open>The exit channel\<close>

lemma slot_inv_controller: "slot_inv (controller c)"
  by (simp add: slot_inv_def slot_global_def all_tasks_def slot_task_def controller_def entry_def
      newProcess_def make_chan_def)

lemma slot_invD: "slot_inv s \<Longrightarrow> tasks s t = Some th \<Longrightarrow> slot_task s th"
  unfolding slot_inv_def by (blast dest: all_tasksD)

lemma slot_inv_update:
  assumes i: "slot_inv s"
      and s': "tasks s' = (tasks s)(t \<mapsto> th')"
      and g: "slot_global s'"
      and t: "slot_task s' th'"
      and o: "\<And>thu. slot_task s thu \<Longrightarrow> slot_task s' thu"
  shows "slot_inv s'"
proof -
  have "all_tasks (\<lambda>t. slot_task s') s'"
  proof (rule all_tasks_update [where P = "\<lambda>t. slot_task s" and P' = "\<lambda>t. slot_task s'", OF _ s'])
    show "all_tasks (\<lambda>t. slot_task s) s" using i by (simp add: slot_inv_def)
  qed (simp_all add: o t)
  with g show ?thesis by (simp add: slot_inv_def)
qed

lemma slot_inv_move:
  assumes i: "slot_inv s" and t: "tasks s t = Some th"
      and a: "closing q \<longrightarrow> closing (pc th)"
      and s': "tasks s' = (tasks s)(t \<mapsto> th\<lparr>pc := q\<rparr>)"
      and o: "exitCh (proc s') = exitCh (proc s)" "sends s' = sends s"
  shows "slot_inv s'"
proof (rule slot_inv_update [OF i s'])
  from i o show "slot_global s'" by (simp add: slot_inv_def slot_global_def)
  from slot_invD [OF i t] a o show "slot_task s' (th\<lparr>pc := q\<rparr>)" by (auto simp: slot_task_def)
  fix thu assume "slot_task s thu"
  with o show "slot_task s' thu" by (simp add: slot_task_def)
qed

lemma slot_inv_recv:
  assumes i: "slot_inv s"
      and rc: "chan_recv (exitCh (proc s)) = Ready (v, c)"
      and s': "tasks s' = (tasks s)(t \<mapsto> th')" "exitCh (proc s') = c" "sends s' = sends s"
  shows "slot_inv s' \<and> sends s' \<noteq> 0 \<and> buf (exitCh (proc s')) = []"
proof -
  from i have g: "slot_global s" by (simp add: slot_inv_def)
  note rd = chan_recv_ReadyD [OF rc]
  from g rd have n0: "sends s \<noteq> 0" by (auto simp: slot_global_def)
  from g rd have e: "buf c = []" by (auto simp: slot_global_def)
  have "slot_inv s'"
  proof (rule slot_inv_update [OF i s'(1)])
    from g rd s' n0 e show "slot_global s'" by (simp add: slot_global_def)
    from s' n0 e show "slot_task s' th'" by (simp add: slot_task_def)
    fix thu assume "slot_task s thu"
    with s' e show "slot_task s' thu" by (simp add: slot_task_def)
  qed
  with s' n0 e show ?thesis by simp
qed

lemma slot_inv_close:
  assumes i: "slot_inv s" and t: "tasks s t = Some th" and cl: "closing (pc th)"
      and rc: "chan_close (exitCh (proc s)) = Ready c"
      and a: "\<not> closing q"
      and s': "tasks s' = (tasks s)(t \<mapsto> th\<lparr>pc := q\<rparr>)" "exitCh (proc s') = c" "sends s' = sends s"
  shows "slot_inv s'"
proof (rule slot_inv_update [OF i s'(1)])
  from i have g: "slot_global s" by (simp add: slot_inv_def)
  note rd = chan_close_ReadyD [OF rc]
  from slot_invD [OF i t] cl have n0: "sends s \<noteq> 0" by (simp add: slot_task_def)
  from g rd s' n0 show "slot_global s'" by (simp add: slot_global_def)
  from a show "slot_task s' (th\<lparr>pc := q\<rparr>)" by (simp add: slot_task_def)
  fix thu assume "slot_task s thu"
  with s' rd show "slot_task s' thu" by (simp add: slot_task_def)
qed

lemma slot_inv_step:
  assumes i: "slot_inv s" and r: "reaper_inv s" and st: "step l s = Some s'"
  shows "slot_inv s'"
  using st
proof (cases rule: step_cases)
  case (Invoke t c)
  show ?thesis
  proof (rule slot_inv_update [OF i])
    show "tasks s' = (tasks s)(t \<mapsto> \<lparr>call = c, pc = entry c, ctx_done = False\<rparr>)"
      using Invoke by simp
    from i Invoke show "slot_global s'" by (simp add: slot_inv_def slot_global_def)
    show "slot_task s' \<lparr>call = c, pc = entry c, ctx_done = False\<rparr>"
      by (cases c) (simp_all add: slot_task_def entry_def)
    fix thu assume "slot_task s thu"
    with Invoke show "slot_task s' thu" by (simp add: slot_task_def)
  qed
next
  case (Cancel t th)
  show ?thesis
  proof (rule slot_inv_update [OF i])
    show "tasks s' = (tasks s)(t \<mapsto> th\<lparr>ctx_done := True\<rparr>)" using Cancel by simp
    from i Cancel show "slot_global s'" by (simp add: slot_inv_def slot_global_def)
    from slot_invD [OF i Cancel(3)] Cancel show "slot_task s' (th\<lparr>ctx_done := True\<rparr>)"
      by (simp add: slot_task_def)
    fix thu assume "slot_task s thu"
    with Cancel show "slot_task s' thu" by (simp add: slot_task_def)
  qed
next
  case (Act t a th q sh)
  note rt = reaper_invD [OF r Act(3)]
  from i have g: "slot_global s" by (simp add: slot_inv_def)
  have tk: "tasks s' = (tasks s)(t \<mapsto> th\<lparr>pc := q\<rparr>)" using Act by simp
  from Act(4) show ?thesis
  proof (cases rule: act_cases)
    case (send e c)
    note sd = chan_send_ReadyD [OF send(3)]
    from rt send have s0: "sends s = 0" by (simp add: reaper_task_def stage_def)
    show ?thesis
    proof (rule slot_inv_update [OF i tk])
      from g s0 sd send Act(5) show "slot_global s'" by (simp add: slot_global_def pc_moves)
      from send show "slot_task s' (th\<lparr>pc := q\<rparr>)" by (simp add: slot_task_def)
      fix thu assume "slot_task s thu"
      with s0 show "slot_task s' thu" by (simp add: slot_task_def)
    qed
  next
    case (Wait_recv v c)
    with Act(5) slot_inv_recv [OF i Wait_recv(3) tk] show ?thesis by (simp add: pc_moves)
  next
    case (stop_recv k v c)
    with Act(5) slot_inv_recv [OF i stop_recv(3) tk] show ?thesis by (simp add: pc_moves)
  next
    case (kill_recv v c)
    with Act(5) slot_inv_recv [OF i kill_recv(3) tk] show ?thesis by (simp add: pc_moves)
  next
    case (stop_close k v c)
    with Act(5) show ?thesis
      by (intro slot_inv_close [OF i Act(3) _ stop_close(3) _ tk]) (simp_all add: pc_moves)
  next
    case (kill_close v c)
    with Act(5) show ?thesis
      by (intro slot_inv_close [OF i Act(3) _ kill_close(3) _ tk]) (simp_all add: pc_moves)
  qed (rule slot_inv_move [OF i Act(3) _ tk]; simp add: Act(5) pc_moves split: body.splits call.splits option.splits)+
qed

subsection \<open>Closing the exit channel\<close>

lemma close_inv_controller: "close_inv (controller c)"
  by (simp add: close_inv_def close_global_def all_tasks_def close_task_def controller_def entry_def
      newProcess_def make_chan_def)

lemma close_invD: "close_inv s \<Longrightarrow> tasks s t = Some th \<Longrightarrow> close_task s th"
  unfolding close_inv_def by (blast dest: all_tasksD)

lemma close_inv_update:
  assumes i: "close_inv s"
      and s': "tasks s' = (tasks s)(t \<mapsto> th')"
      and g: "close_global s'"
      and t: "close_task s' th'"
      and o: "\<And>u thu. u \<noteq> t \<Longrightarrow> tasks s u = Some thu \<Longrightarrow> close_task s thu \<Longrightarrow> close_task s' thu"
  shows "close_inv s'"
proof -
  have "all_tasks (\<lambda>t. close_task s') s'"
  proof (rule all_tasks_update [where P = "\<lambda>t. close_task s" and P' = "\<lambda>t. close_task s'", OF _ s'])
    show "all_tasks (\<lambda>t. close_task s) s" using i by (simp add: close_inv_def)
  qed (simp_all add: o t)
  with g show ?thesis by (simp add: close_inv_def)
qed

lemma close_inv_move:
  assumes i: "close_inv s" and t: "tasks s t = Some th"
      and a: "in_body q \<and> \<not> storing q \<longrightarrow> in_body (pc th) \<and> \<not> storing (pc th)"
      and s': "tasks s' = (tasks s)(t \<mapsto> th\<lparr>pc := q\<rparr>)"
      and o: "closed (exitCh (proc s')) = closed (exitCh (proc s))"
        "closed (exitCh (proc s)) \<longrightarrow> buf (exitCh (proc s')) = []"
        "closes s' = closes s"
        "closed (exitCh (proc s)) \<longrightarrow> o_once (once (proc s')) \<noteq> Fresh"
  shows "close_inv s'"
proof (rule close_inv_update [OF i s'])
  from i o show "close_global s'" by (simp add: close_inv_def close_global_def)
  from close_invD [OF i t] a o show "close_task s' (th\<lparr>pc := q\<rparr>)" by (auto simp: close_task_def)
  fix u thu assume "close_task s thu"
  with o show "close_task s' thu" by (simp add: close_task_def)
qed

lemma close_inv_step:
  assumes i: "close_inv s" and b: "once_inv rho s" and d: "slot_inv s" and st: "step l s = Some s'"
  shows "close_inv s'"
  using st
proof (cases rule: step_cases)
  case (Invoke t c)
  show ?thesis
  proof (rule close_inv_update [OF i])
    show "tasks s' = (tasks s)(t \<mapsto> \<lparr>call = c, pc = entry c, ctx_done = False\<rparr>)"
      using Invoke by simp
    from i Invoke show "close_global s'" by (simp add: close_inv_def close_global_def)
    show "close_task s' \<lparr>call = c, pc = entry c, ctx_done = False\<rparr>"
      by (cases c) (simp_all add: close_task_def entry_def)
    fix thu assume "close_task s thu"
    with Invoke show "close_task s' thu" by (simp add: close_task_def)
  qed
next
  case (Cancel t th)
  show ?thesis
  proof (rule close_inv_update [OF i])
    show "tasks s' = (tasks s)(t \<mapsto> th\<lparr>ctx_done := True\<rparr>)" using Cancel by simp
    from i Cancel show "close_global s'" by (simp add: close_inv_def close_global_def)
    from close_invD [OF i Cancel(3)] Cancel show "close_task s' (th\<lparr>ctx_done := True\<rparr>)"
      by (simp add: close_task_def)
    fix thu assume "close_task s thu"
    with Cancel show "close_task s' thu" by (simp add: close_task_def)
  qed
next
  case (Act t a th q sh)
  note ct = close_invD [OF i Act(3)] and ot = once_invD [OF b Act(3)] and dt = slot_invD [OF d Act(3)]
  from i have g: "close_global s" by (simp add: close_inv_def)
  from b have og: "once_global rho s" by (simp add: once_inv_def)
  have tk: "tasks s' = (tasks s)(t \<mapsto> th\<lparr>pc := q\<rparr>)" using Act by simp
  have recv: "close_inv s'"
    if rc: "chan_recv (exitCh (proc s)) = Ready (v, c)" and sh: "sh = set_exitCh c s"
      and q: "in_body q \<and> \<not> storing q \<longrightarrow> in_body (pc th) \<and> \<not> storing (pc th)" for v c
  proof (rule close_inv_move [OF i Act(3) q tk])
    note rd = chan_recv_ReadyD [OF rc]
    from rd sh Act(5) show "closed (exitCh (proc s')) = closed (exitCh (proc s))"
      by (simp add: pc_moves)
    from g rd sh Act(5) show "closed (exitCh (proc s)) \<longrightarrow> buf (exitCh (proc s')) = []"
      by (auto simp: pc_moves close_global_def)
    from g sh Act(5) show "closed (exitCh (proc s)) \<longrightarrow> o_once (once (proc s')) \<noteq> Fresh"
      by (simp add: pc_moves close_global_def)
  qed (simp_all add: sh Act(5) pc_moves)
  have close: "close_inv s'"
    if rc: "chan_close (exitCh (proc s)) = Ready c"
      and sh: "sh = (set_exitCh c s)\<lparr>closes := Suc (closes s)\<rparr>"
      and p: "closing (pc th)" "in_body (pc th)" and q: "storing q" for c
  proof (rule close_inv_update [OF i tk])
    note rd = chan_close_ReadyD [OF rc]
    from ot p have rho: "rho = Some t" by (simp add: once_task_def)
    with og have "o_once (once (proc s)) = Running" by (simp add: once_global_def)
    moreover from dt p have "buf (exitCh (proc s)) = []" by (simp add: slot_task_def)
    ultimately show "close_global s'"
      using g rd sh Act(5) by (simp add: close_global_def pc_moves)
    from q show "close_task s' (th\<lparr>pc := q\<rparr>)" by (simp add: close_task_def)
    fix u thu assume u: "u \<noteq> t" "tasks s u = Some thu"
    from once_invD [OF b u(2)] rho u(1) have "\<not> in_body (pc thu)" by (simp add: once_task_def)
    then show "close_task s' thu" by (simp add: close_task_def)
  qed
  from Act(4) show ?thesis
  proof (cases rule: act_cases)
    case (send e c)
    note sd = chan_send_ReadyD [OF send(3)]
    show ?thesis
      by (rule close_inv_move [OF i Act(3) _ tk]) (use g send sd Act(5) in \<open>simp_all add: pc_moves close_global_def\<close>)
  next
    case (Wait_recv v c)
    then show ?thesis by (intro recv) simp_all
  next
    case (stop_recv k v c)
    then show ?thesis by (intro recv) simp_all
  next
    case (kill_recv v c)
    then show ?thesis by (intro recv) simp_all
  next
    case (stop_close k v c)
    then show ?thesis by (intro close) simp_all
  next
    case (kill_close v c)
    then show ?thesis by (intro close) simp_all
  next
    case (Do_enter x)
    with g have nc: "\<not> closed (exitCh (proc s))" by (auto simp: close_global_def)
    show ?thesis
    proof (rule close_inv_update [OF i tk])
      from g nc Do_enter Act(5) show "close_global s'" by (simp add: close_global_def pc_moves)
      from nc Do_enter Act(5) show "close_task s' (th\<lparr>pc := q\<rparr>)"
        by (simp add: close_task_def pc_moves)
      fix u thu assume "close_task s thu"
      with Do_enter Act(5) show "close_task s' thu" by (simp add: close_task_def pc_moves)
    qed
  next
    case (Do_store x)
    show ?thesis
      by (rule close_inv_move [OF i Act(3) _ tk])
        (use g Do_store Act(5) in \<open>simp_all add: pc_moves close_global_def\<close>)
  qed (rule close_inv_move [OF i Act(3) _ tk];
       use g in \<open>simp add: Act(5) pc_moves close_global_def split: body.splits call.splits option.splits\<close>; fail)+
qed

subsection \<open>All reachable states\<close>

lemma inv_controller: "inv None (controller c)"
  by (simp add: inv_def reaper_inv_controller once_inv_controller slot_inv_controller
      close_inv_controller) (simp add: controller_def)

lemma panic_step:
  assumes r: "reaper_inv s" and d: "slot_inv s" and c: "close_inv s" and st: "step l s = Some s'"
  shows "panic s' = None \<or> panic s' = Some Slice_bounds"
  using st
proof (cases rule: step_cases)
  case (Act t a th q sh)
  note rt = reaper_invD [OF r Act(3)] and ct = close_invD [OF c Act(3)]
  from d have g: "slot_global s" by (simp add: slot_inv_def)
  from Act(4) show ?thesis
  proof (cases rule: act_cases)
    case (send_panic e)
    from rt send_panic have "sends s = 0" by (simp add: reaper_task_def stage_def)
    with g have "\<not> closed (exitCh (proc s))" by (simp add: slot_global_def)
    with chan_send_PanicsD [OF send_panic(3)] show ?thesis by simp
  next
    case (stop_close_panic k v)
    with ct chan_close_PanicsD [OF stop_close_panic(3)] show ?thesis by (simp add: close_task_def)
  next
    case (kill_close_panic v)
    with ct chan_close_PanicsD [OF kill_close_panic(3)] show ?thesis by (simp add: close_task_def)
  qed (simp_all add: Act(2,5) pc_moves)
qed simp_all

lemma inv_step:
  assumes i: "inv rho s" and st: "step l s = Some s'"
  shows "\<exists>rho'. inv rho' s'"
proof -
  from i have r: "reaper_inv s" and b: "once_inv rho s" and d: "slot_inv s" and c: "close_inv s"
    by (simp_all add: inv_def)
  from once_inv_step [OF b r st] obtain rho' where "once_inv rho' s'" ..
  with reaper_inv_step [OF r st] slot_inv_step [OF d r st] close_inv_step [OF c b d st]
    panic_step [OF r d c st]
  have "inv rho' s'" by (simp add: inv_def)
  then show ?thesis ..
qed

lemma inv_run: "inv rho s \<Longrightarrow> run ls s = Some s' \<Longrightarrow> \<exists>rho'. inv rho' s'"
proof (induction ls arbitrary: rho s)
  case Nil
  then show ?case by auto
next
  case (Cons l ls)
  from Cons.prems obtain s1 where s1: "step l s = Some s1" "run ls s1 = Some s'"
    by (auto split: option.splits)
  from inv_step [OF Cons.prems(1) s1(1)] obtain rho1 where "inv rho1 s1" ..
  from Cons.IH [OF this s1(2)] show ?case .
qed

lemmas exec_simps = run_defs chan_defs is_simps

lemma reachable_inv: "run ls (controller c) = Some s \<Longrightarrow> \<exists>rho. inv rho s"
  using inv_run [OF inv_controller] .

lemma body_unique:
  assumes "once_inv rho s" "tasks s t = Some th" "tasks s u = Some uh" "in_body (pc th)" "in_body (pc uh)"
  shows "t = u"
  using once_invD [OF assms(1,2)] once_invD [OF assms(1,3)] assms(4,5)
  by (simp add: once_task_def)

lemma sends_le: "reaper_inv s \<Longrightarrow> sends s \<le> 1 \<and> waits s \<le> 1"
proof -
  assume r: "reaper_inv s"
  then obtain th where t: "tasks s 0 = Some th" by (auto simp: reaper_inv_def)
  from reaper_invD [OF r t] show ?thesis by (auto simp: reaper_task_def stage_def)
qed

lemma deposit_ready:
  assumes i: "inv rho s" and t: "tasks s 0 = Some th" "pc th = At_wait_send x" and p: "panic s = None"
  shows "\<exists>s'. step (Act 0 Plain) s = Some s' \<and> buf (exitCh (proc s')) = [x] \<and> sends s' = 1
           \<and> panic s' = None"
proof -
  from i have r: "reaper_inv s" and d: "slot_global s" by (simp_all add: inv_def slot_inv_def)
  from reaper_invD [OF r t(1)] t(2) have "sends s = 0" by (simp add: reaper_task_def stage_def)
  with d have "buf (exitCh (proc s)) = []" "\<not> closed (exitCh (proc s))" "cap (exitCh (proc s)) = 1"
    by (simp_all add: slot_global_def)
  with t p \<open>sends s = 0\<close> show ?thesis by (simp add: exec_simps)
qed

text \<open>A dead exit channel stays dead, whatever happens next.\<close>

lemma dead_slot_step:
  assumes d: "dead_slot s" and st: "step l s = Some s'"
  shows "dead_slot s'"
proof -
  from d have e: "buf (exitCh (proc s)) = []" "\<not> closed (exitCh (proc s))"
    and a: "all_tasks (\<lambda>t th. \<not> reaper_pc (pc th) \<and> \<not> closing (pc th)) s"
    by (simp_all add: dead_slot_def)
  have nr: "chan_recv (exitCh (proc s)) \<noteq> Ready x" for x
    using e by (simp add: chan_recv_def)
  from st show ?thesis
  proof (cases rule: step_cases)
    case (Invoke t c)
    have "all_tasks (\<lambda>t th. \<not> reaper_pc (pc th) \<and> \<not> closing (pc th)) s'"
      by (rule all_tasks_update [OF a, where t = t]) (use Invoke in \<open>auto simp: entry_def split: call.splits\<close>)
    with e Invoke show ?thesis by (simp add: dead_slot_def)
  next
    case (Cancel t th)
    have "all_tasks (\<lambda>t th. \<not> reaper_pc (pc th) \<and> \<not> closing (pc th)) s'"
      by (rule all_tasks_update [OF a, where t = t and th' = "th\<lparr>ctx_done := True\<rparr>"])
        (use Cancel all_tasksD [OF a Cancel(3)] in auto)
    with e Cancel show ?thesis by (simp add: dead_slot_def)
  next
    case (Act t a' th q sh)
    note p = all_tasksD [OF a Act(3)]
    have tk: "tasks s' = (tasks s)(t \<mapsto> th\<lparr>pc := q\<rparr>)" using Act by simp
    have "\<not> reaper_pc q \<and> \<not> closing q \<and> exitCh (proc sh) = exitCh (proc s)"
      using Act(4) by (cases rule: act_cases)
        (use p nr in \<open>auto simp: pc_moves split: body.splits call.splits option.splits\<close>)
    moreover from this have "all_tasks (\<lambda>t th. \<not> reaper_pc (pc th) \<and> \<not> closing (pc th)) s'"
      by (intro all_tasks_update [OF a tk]) auto
    ultimately show ?thesis using e Act(5) by (simp add: dead_slot_def)
  qed
qed

lemma dead_slot_run: "dead_slot s \<Longrightarrow> run ls s = Some s' \<Longrightarrow> dead_slot s'"
proof (induction ls arbitrary: s)
  case Nil
  then show ?case by simp
next
  case (Cons l ls)
  from Cons.prems(2) obtain s1 where s1: "step l s = Some s1" "run ls s1 = Some s'"
    by (auto split: option.splits)
  from Cons.IH [OF dead_slot_step [OF Cons.prems(1) s1(1)] s1(2)] show ?case .
qed

text \<open>Runs in two parts, for the concrete runs below.\<close>

lemma run_from: "run xs s0 = Some s \<Longrightarrow> run (xs @ ys) s0 = run ys s"
  by (simp add: run_append)

lemma at_run_from: "run xs s0 = Some s \<Longrightarrow> at (run (xs @ ys) s0) t = at (run ys s) t"
  by (simp add: run_append)

lemma slot_run_from: "run xs s0 = Some s \<Longrightarrow> slot (run (xs @ ys) s0) = slot (run ys s)"
  by (simp add: run_append)

lemmas eval_simps = exec_simps fixture_defs

section \<open>The claims\<close>

subsection \<open>Stop: the signals\<close>

text \<open>
  Claim C1. A call of \<^verbatim>\<open>Stop\<close> that finds the once fresh enters \<^verbatim>\<open>stop\<close>
  (lines 220-241). From there, in any state of any controller: without a process handle the call returns \<^verbatim>\<open>nil\<close>. With a handle it
  sends the interrupt signal: if the send fails with an error that is
  \<^verbatim>\<open>os.ErrProcessDone\<close> the call returns \<^verbatim>\<open>nil\<close>; if it fails with another error the
  next action is the send of the kill signal, and the call returns at this point only
  if that send fails too, with the error of the kill send; if either send succeeds the
  call goes on to the \<^verbatim>\<open>select\<close>, expecting the error of the signal that was sent.
  Last conjunct: on a started command, after the goroutine of \<^verbatim>\<open>wait\<close> has deposited the
  result \<open>v\<close> of the OS wait and a \<^verbatim>\<open>Wait\<close> has returned it, a \<^verbatim>\<open>Stop\<close> whose interrupt
  send the OS answers with a process-done error (as it does for a process that has
  been waited for) returns \<^verbatim>\<open>nil\<close>.
\<close>

theorem stop_signal_phase:
  "(panic s = None \<and> tasks s t = None \<and> o_once (once (proc s)) = Fresh \<longrightarrow>
      at (run [Invoke t Call_Stop, Act t Plain] s) t = Some At_stop_handle)
 \<and> (panic s = None \<and> tasks s t = Some th \<and> pc th = At_stop_handle \<and> call th = Call_Stop \<longrightarrow>
      (Process (cmd (proc s)) = None \<longrightarrow>
         at (run [Act t Plain, Act t Plain, Act t Plain] s) t = Some (Returned None))
    \<and> (Process (cmd (proc s)) \<noteq> None \<longrightarrow>
         (isProcessDone e \<longrightarrow>
            at (run [Act t Plain, Act t (Returns e), Act t Plain, Act t Plain] s) t
              = Some (Returned None))
       \<and> (e \<noteq> None \<and> \<not> isProcessDone e \<longrightarrow>
            at (run [Act t Plain, Act t (Returns e)] s) t = Some At_stop_escalate
          \<and> at (run [Act t Plain, Act t (Returns e), Act t (Returns None)] s) t
              = Some (At_stop_select By_kill)
          \<and> (e' \<noteq> None \<longrightarrow>
               at (run [Act t Plain, Act t (Returns e), Act t (Returns e'), Act t Plain,
                        Act t Plain] s) t = Some (Returned e')))
       \<and> at (run [Act t Plain, Act t (Returns None)] s) t = Some (At_stop_select By_interrupt)))
 \<and> (Process c \<noteq> None \<and> Is_ErrProcessDone d \<longrightarrow>
      at (run [Act 0 (Returns v), Act 0 Plain, Invoke 1 Call_Wait, Act 1 Branch_recv]
            (controller c)) 1 = Some (Returned v)
    \<and> at (run [Act 0 (Returns v), Act 0 Plain, Invoke 1 Call_Wait, Act 1 Branch_recv,
               Invoke 2 Call_Stop, Act 2 Plain, Act 2 Plain, Act 2 (Returns (Some d)),
               Act 2 Plain, Act 2 Plain] (controller c)) 2 = Some (Returned None))"
proof (intro conjI impI)
  assume "Process c \<noteq> None \<and> Is_ErrProcessDone d"
  then show "at (run [Act 0 (Returns v), Act 0 Plain, Invoke 1 Call_Wait, Act 1 Branch_recv,
               Invoke 2 Call_Stop, Act 2 Plain, Act 2 Plain, Act 2 (Returns (Some d)),
               Act 2 Plain, Act 2 Plain] (controller c)) 2 = Some (Returned None)"
    by (auto simp: run_defs chan_defs controller_def newProcess_def is_simps)
qed (auto simp: run_defs chan_defs controller_def newProcess_def is_simps dest!: isProcessDone_SomeD)

theorem stop_signal_phase_witness:
  "at (run [Invoke 1 Call_Stop, Act 1 Plain] (controller sh_exit0)) 1 = Some At_stop_handle
 \<and> at (run ([Invoke 1 Call_Stop, Act 1 Plain]
           @ [Act 1 Plain, Act 1 (Returns (Some ErrProcessDone)), Act 1 Plain, Act 1 Plain])
        (controller sh_exit0)) 1 = Some (Returned None)
 \<and> at (run [Act 0 (Returns None), Act 0 Plain, Invoke 1 Call_Wait, Act 1 Branch_recv,
           Invoke 2 Call_Stop, Act 2 Plain, Act 2 Plain, Act 2 (Returns (Some ErrProcessDone)),
           Act 2 Plain, Act 2 Plain] (controller sh_exit0)) 2 = Some (Returned None)"
proof -
  define s where "s = the (run [Invoke 1 Call_Stop, Act 1 Plain] (controller sh_exit0))"
  define th where "th = \<lparr>call = Call_Stop, pc = At_stop_handle, ctx_done = False\<rparr>"
  have r: "run [Invoke 1 Call_Stop, Act 1 Plain] (controller sh_exit0) = Some s"
    by (simp add: s_def run_defs fixture_defs)
  have h: "panic s = None \<and> tasks s 1 = Some th \<and> pc th = At_stop_handle \<and> call th = Call_Stop"
    and p: "Process (cmd (proc s)) \<noteq> None"
    by (simp_all add: s_def th_def run_defs fixture_defs)
  have d: "isProcessDone (Some ErrProcessDone)"
    "Process sh_exit0 \<noteq> None \<and> Is_ErrProcessDone ErrProcessDone"
    by (simp_all add: isProcessDone_def fixture_defs)
  note inst = stop_signal_phase
    [where s = s and t = 1 and th = th and e = "Some ErrProcessDone" and c = sh_exit0
       and d = ErrProcessDone and v = None]
  have f: "panic (controller sh_exit0) = None \<and> tasks (controller sh_exit0) 1 = None
      \<and> o_once (once (proc (controller sh_exit0))) = Fresh"
    by (simp add: fixture_defs)
  from stop_signal_phase [where s = "controller sh_exit0" and t = 1] f
  have c: "at (run [Invoke 1 Call_Stop, Act 1 Plain] (controller sh_exit0)) 1 = Some At_stop_handle"
    by blast
  from inst h p d(1)
  have a: "at (run [Act 1 Plain, Act 1 (Returns (Some ErrProcessDone)), Act 1 Plain, Act 1 Plain] s) 1
             = Some (Returned None)"
    by blast
  from inst d(2)
  have b: "at (run [Act 0 (Returns None), Act 0 Plain, Invoke 1 Call_Wait, Act 1 Branch_recv,
           Invoke 2 Call_Stop, Act 2 Plain, Act 2 Plain, Act 2 (Returns (Some ErrProcessDone)),
           Act 2 Plain, Act 2 Plain] (controller sh_exit0)) 2 = Some (Returned None)"
    by blast
  show ?thesis
    unfolding at_run_from [OF r] using a b c by blast
qed

subsection \<open>Stop: the exit result\<close>

text \<open>
  Claim C2. \<^verbatim>\<open>stop\<close> (lines 243-261) in a call of \<^verbatim>\<open>Stop\<close>. A successful interrupt
  send leads to the \<^verbatim>\<open>select\<close> expecting \<^verbatim>\<open>isInterrupt\<close>, a successful kill send after
  a failed interrupt to the \<^verbatim>\<open>select\<close> expecting \<^verbatim>\<open>isKilled\<close>. When the \<^verbatim>\<open>select\<close>
  receives the deposited exit result \<open>v\<close>, the call closes the channel and returns
  \<^verbatim>\<open>nil\<close> if \<open>v\<close> is \<^verbatim>\<open>nil\<close> or the expected error of the signal that was sent, and
  \<open>v\<close> itself otherwise.
\<close>

theorem stop_exit_result:
  "panic s = None \<and> tasks s t = Some th \<and> call th = Call_Stop \<longrightarrow>
     (pc th = At_stop_interrupt \<longrightarrow>
        at (run [Act t (Returns None)] s) t = Some (At_stop_select By_interrupt))
   \<and> (pc th = At_stop_escalate \<longrightarrow>
        at (run [Act t (Returns None)] s) t = Some (At_stop_select By_kill))
   \<and> (buf (exitCh (proc s)) = v # vs \<and> \<not> closed (exitCh (proc s)) \<longrightarrow>
        (pc th = At_stop_select By_interrupt \<longrightarrow>
           at (run [Act t Branch_recv, Act t Plain, Act t Plain, Act t Plain] s) t
             = Some (Returned (if v = None \<or> isInterrupt v then None else v)))
      \<and> (pc th = At_stop_select By_kill \<longrightarrow>
           at (run [Act t Branch_recv, Act t Plain, Act t Plain, Act t Plain] s) t
             = Some (Returned (if v = None \<or> isKilled v then None else v))))"
  by (auto simp: exec_simps)

theorem stop_exit_result_witness:
  "at (run ([Invoke 1 Call_Stop, Act 1 Plain, Act 1 Plain] @ [Act 1 (Returns None)])
        (controller sh_exit0)) 1 = Some (At_stop_select By_interrupt)
 \<and> at (run ([Invoke 1 Call_Stop, Act 1 Plain, Act 1 Plain, Act 1 (Returns None),
             Act 0 (Returns (Some err_interrupt)), Act 0 Plain]
           @ [Act 1 Branch_recv, Act 1 Plain, Act 1 Plain, Act 1 Plain])
        (controller sh_exit0)) 1 = Some (Returned None)
 \<and> at (run ([Invoke 1 Call_Stop, Act 1 Plain, Act 1 Plain, Act 1 (Returns None),
             Act 0 (Returns (Some err_exit7)), Act 0 Plain]
           @ [Act 1 Branch_recv, Act 1 Plain, Act 1 Plain, Act 1 Plain])
        (controller sh_exit0)) 1 = Some (Returned (Some err_exit7))"
proof -
  define s1 where "s1 = the (run [Invoke 1 Call_Stop, Act 1 Plain, Act 1 Plain] (controller sh_exit0))"
  define s2 where "s2 = the (run [Invoke 1 Call_Stop, Act 1 Plain, Act 1 Plain, Act 1 (Returns None),
             Act 0 (Returns (Some err_interrupt)), Act 0 Plain] (controller sh_exit0))"
  define s3 where "s3 = the (run [Invoke 1 Call_Stop, Act 1 Plain, Act 1 Plain, Act 1 (Returns None),
             Act 0 (Returns (Some err_exit7)), Act 0 Plain] (controller sh_exit0))"
  define th1 where "th1 = \<lparr>call = Call_Stop, pc = At_stop_interrupt, ctx_done = False\<rparr>"
  define th2 where "th2 = \<lparr>call = Call_Stop, pc = At_stop_select By_interrupt, ctx_done = False\<rparr>"
  have r1: "run [Invoke 1 Call_Stop, Act 1 Plain, Act 1 Plain] (controller sh_exit0) = Some s1"
    and r2: "run [Invoke 1 Call_Stop, Act 1 Plain, Act 1 Plain, Act 1 (Returns None),
             Act 0 (Returns (Some err_interrupt)), Act 0 Plain] (controller sh_exit0) = Some s2"
    and r3: "run [Invoke 1 Call_Stop, Act 1 Plain, Act 1 Plain, Act 1 (Returns None),
             Act 0 (Returns (Some err_exit7)), Act 0 Plain] (controller sh_exit0) = Some s3"
    by (simp_all add: s1_def s2_def s3_def eval_simps)
  have h1: "panic s1 = None \<and> tasks s1 1 = Some th1 \<and> call th1 = Call_Stop" "pc th1 = At_stop_interrupt"
    and h2: "panic s2 = None \<and> tasks s2 1 = Some th2 \<and> call th2 = Call_Stop"
      "buf (exitCh (proc s2)) = Some err_interrupt # [] \<and> \<not> closed (exitCh (proc s2))"
      "pc th2 = At_stop_select By_interrupt"
    and h3: "panic s3 = None \<and> tasks s3 1 = Some th2 \<and> call th2 = Call_Stop"
      "buf (exitCh (proc s3)) = Some err_exit7 # [] \<and> \<not> closed (exitCh (proc s3))"
    by (simp_all add: s1_def s2_def s3_def th1_def th2_def eval_simps)
  from stop_exit_result [of s1 1 th1 None "[]"] h1
  have a: "at (run [Act 1 (Returns None)] s1) 1 = Some (At_stop_select By_interrupt)"
    by blast
  have "isInterrupt (Some err_interrupt)" "\<not> isInterrupt (Some err_exit7)"
    by (simp_all add: is_simps err_interrupt_def err_exit7_def)
  with stop_exit_result [of s2 1 th2 "Some err_interrupt" "[]"]
    stop_exit_result [of s3 1 th2 "Some err_exit7" "[]"] h2 h3
  have b: "at (run [Act 1 Branch_recv, Act 1 Plain, Act 1 Plain, Act 1 Plain] s2) 1
      = Some (Returned None)"
    and c: "at (run [Act 1 Branch_recv, Act 1 Plain, Act 1 Plain, Act 1 Plain] s3) 1
      = Some (Returned (Some err_exit7))"
    by (simp_all del: run.simps)
  show ?thesis
    unfolding at_run_from [OF r1] at_run_from [OF r2] at_run_from [OF r3]
    using a b c by blast
qed

subsection \<open>Stop: the deadline, and Kill\<close>

text \<open>
  Claim C3 as stated fails where the kill send fails for a reason other than a finished
  process: on a started command whose kill send the OS refuses, \<^verbatim>\<open>Kill\<close> returns the
  error of the send, which is not a process-done error, while nothing has been sent on
  the exit channel: it neither succeeded trivially nor waited for an exit result.
\<close>

theorem kill_send_error_counterexample:
  "at (run [Invoke 1 Call_Kill, Act 1 Plain, Act 1 Plain, Act 1 (Returns (Some err_perm)),
            Act 1 Plain, Act 1 Plain] (controller sh_exit0)) 1 = Some (Returned (Some err_perm))
 \<and> \<not> isProcessDone (Some err_perm)
 \<and> slot (run [Invoke 1 Call_Kill, Act 1 Plain, Act 1 Plain, Act 1 (Returns (Some err_perm)),
            Act 1 Plain, Act 1 Plain] (controller sh_exit0)) = Some (make_chan 1)
 \<and> map_option sends
      (run [Invoke 1 Call_Kill, Act 1 Plain, Act 1 Plain, Act 1 (Returns (Some err_perm)),
            Act 1 Plain, Act 1 Plain] (controller sh_exit0)) = Some 0"
  by (simp add: eval_simps)

text \<open>
  Claim C3, as amended. When the context of a \<^verbatim>\<open>Stop\<close> is done at the \<^verbatim>\<open>select\<close>, the
  branch of \<^verbatim>\<open>ctx.Done()\<close> does nothing but enter \<^verbatim>\<open>kill\<close>, whose result is the result
  of \<^verbatim>\<open>stop\<close>; a call of \<^verbatim>\<open>Kill\<close> that finds the once fresh enters \<^verbatim>\<open>kill\<close> too. \<^verbatim>\<open>kill\<close> (lines 264-286), in a call of \<^verbatim>\<open>Stop\<close> or \<^verbatim>\<open>Kill\<close>: without a
  handle it returns \<^verbatim>\<open>nil\<close>; if the kill send fails with a process-done error it returns
  \<^verbatim>\<open>nil\<close>; if the send fails with any other error it returns that error at once (the
  amendment); if the send succeeds it receives from the exit channel, blocked while the
  channel is empty and open whatever the context does, and returns \<^verbatim>\<open>nil\<close> when the exit
  result is \<^verbatim>\<open>nil\<close> or the kill-termination error and the exit result otherwise. The
  values returned are \<^verbatim>\<open>nil\<close>, the error of the kill send and the exit result: never an
  error of the context.
\<close>

theorem stop_deadline_kill:
  "(panic s = None \<and> tasks s t = None \<and> o_once (once (proc s)) = Fresh \<longrightarrow>
      at (run [Invoke t Call_Kill, Act t Plain] s) t = Some At_kill_handle)
 \<and> (panic s = None \<and> tasks s t = Some th \<and> pc th = At_stop_select k \<and> ctx_done th \<longrightarrow>
      step (Act t Branch_done) s = Some (s\<lparr>tasks := (tasks s)(t \<mapsto> th\<lparr>pc := At_kill_handle\<rparr>)\<rparr>))
 \<and> (panic s = None \<and> tasks s t = Some th \<and> (call th = Call_Stop \<or> call th = Call_Kill) \<longrightarrow>
      (pc th = At_kill_handle \<and> Process (cmd (proc s)) = None \<longrightarrow>
         at (run [Act t Plain, Act t Plain, Act t Plain] s) t = Some (Returned None))
    \<and> (pc th = At_kill_handle \<and> Process (cmd (proc s)) \<noteq> None \<longrightarrow>
         (isProcessDone e \<longrightarrow>
            at (run [Act t Plain, Act t (Returns e), Act t Plain, Act t Plain] s) t
              = Some (Returned None))
       \<and> (e \<noteq> None \<and> \<not> isProcessDone e \<longrightarrow>
            at (run [Act t Plain, Act t (Returns e), Act t Plain, Act t Plain] s) t
              = Some (Returned e))
       \<and> at (run [Act t Plain, Act t (Returns None)] s) t = Some At_kill_recv)
    \<and> (pc th = At_kill_recv \<longrightarrow>
         (buf (exitCh (proc s)) = [] \<and> \<not> closed (exitCh (proc s)) \<longrightarrow>
            step (Act t a) s = None \<and> run [Cancel t, Act t a] s = None)
       \<and> (buf (exitCh (proc s)) = v # vs \<and> \<not> closed (exitCh (proc s)) \<longrightarrow>
            at (run [Act t Branch_recv, Act t Plain, Act t Plain, Act t Plain] s) t
              = Some (Returned (if v = None \<or> isKilled v then None else v)))))"
  by (auto simp: exec_simps dest!: isProcessDone_SomeD split: answer.splits)

theorem stop_deadline_kill_witness:
  "at (run ([Invoke 1 Call_Stop, Act 1 Plain, Act 1 Plain, Act 1 (Returns None), Cancel 1]
           @ [Act 1 Branch_done]) (controller sh_exit0)) 1 = Some At_kill_handle
 \<and> at (run ([Invoke 1 Call_Stop, Act 1 Plain, Act 1 Plain, Act 1 (Returns None), Cancel 1,
             Act 1 Branch_done]
           @ [Act 1 Plain, Act 1 (Returns (Some err_perm)), Act 1 Plain, Act 1 Plain])
        (controller sh_exit0)) 1 = Some (Returned (Some err_perm))
 \<and> run ([Invoke 1 Call_Stop, Act 1 Plain, Act 1 Plain, Act 1 (Returns None), Cancel 1,
         Act 1 Branch_done, Act 1 Plain, Act 1 (Returns None)]
        @ [Act 1 Branch_recv]) (controller sh_exit0) = None
 \<and> at (run ([Invoke 1 Call_Stop, Act 1 Plain, Act 1 Plain, Act 1 (Returns None), Cancel 1,
             Act 1 Branch_done, Act 1 Plain, Act 1 (Returns None),
             Act 0 (Returns (Some err_killed)), Act 0 Plain]
           @ [Act 1 Branch_recv, Act 1 Plain, Act 1 Plain, Act 1 Plain])
        (controller sh_exit0)) 1 = Some (Returned None)"
proof -
  define sa where "sa = the (run [Invoke 1 Call_Stop, Act 1 Plain, Act 1 Plain, Act 1 (Returns None),
    Cancel 1] (controller sh_exit0))"
  define sb where "sb = the (run [Invoke 1 Call_Stop, Act 1 Plain, Act 1 Plain, Act 1 (Returns None),
    Cancel 1, Act 1 Branch_done] (controller sh_exit0))"
  define sc where "sc = the (run [Invoke 1 Call_Stop, Act 1 Plain, Act 1 Plain, Act 1 (Returns None),
    Cancel 1, Act 1 Branch_done, Act 1 Plain, Act 1 (Returns None)] (controller sh_exit0))"
  define sd where "sd = the (run [Invoke 1 Call_Stop, Act 1 Plain, Act 1 Plain, Act 1 (Returns None),
    Cancel 1, Act 1 Branch_done, Act 1 Plain, Act 1 (Returns None),
    Act 0 (Returns (Some err_killed)), Act 0 Plain] (controller sh_exit0))"
  define tha where "tha = \<lparr>call = Call_Stop, pc = At_stop_select By_interrupt, ctx_done = True\<rparr>"
  define thb where "thb = \<lparr>call = Call_Stop, pc = At_kill_handle, ctx_done = True\<rparr>"
  define thc where "thc = \<lparr>call = Call_Stop, pc = At_kill_recv, ctx_done = True\<rparr>"
  have ra: "run [Invoke 1 Call_Stop, Act 1 Plain, Act 1 Plain, Act 1 (Returns None),
      Cancel 1] (controller sh_exit0) = Some sa"
    and rb: "run [Invoke 1 Call_Stop, Act 1 Plain, Act 1 Plain, Act 1 (Returns None),
      Cancel 1, Act 1 Branch_done] (controller sh_exit0) = Some sb"
    and rc: "run [Invoke 1 Call_Stop, Act 1 Plain, Act 1 Plain, Act 1 (Returns None),
      Cancel 1, Act 1 Branch_done, Act 1 Plain, Act 1 (Returns None)] (controller sh_exit0) = Some sc"
    and rd: "run [Invoke 1 Call_Stop, Act 1 Plain, Act 1 Plain, Act 1 (Returns None),
      Cancel 1, Act 1 Branch_done, Act 1 Plain, Act 1 (Returns None),
      Act 0 (Returns (Some err_killed)), Act 0 Plain] (controller sh_exit0) = Some sd"
    by (simp_all add: sa_def sb_def sc_def sd_def eval_simps)
  have ha: "panic sa = None \<and> tasks sa 1 = Some tha \<and> pc tha = At_stop_select By_interrupt
      \<and> ctx_done tha"
    and hb: "panic sb = None \<and> tasks sb 1 = Some thb \<and> (call thb = Call_Stop \<or> call thb = Call_Kill)"
      "pc thb = At_kill_handle \<and> Process (cmd (proc sb)) \<noteq> None"
      "Some err_perm \<noteq> None \<and> \<not> isProcessDone (Some err_perm)"
    and hc: "panic sc = None \<and> tasks sc 1 = Some thc \<and> (call thc = Call_Stop \<or> call thc = Call_Kill)"
      "pc thc = At_kill_recv" "buf (exitCh (proc sc)) = [] \<and> \<not> closed (exitCh (proc sc))"
    and hd: "panic sd = None \<and> tasks sd 1 = Some thc \<and> (call thc = Call_Stop \<or> call thc = Call_Kill)"
      "buf (exitCh (proc sd)) = Some err_killed # [] \<and> \<not> closed (exitCh (proc sd))"
      "isKilled (Some err_killed)"
    by (simp_all add: sa_def sb_def sc_def sd_def tha_def thb_def thc_def eval_simps)
  from stop_deadline_kill [where s = sa and t = 1 and th = tha and k = By_interrupt] ha
  have "step (Act 1 Branch_done) sa = Some (sa\<lparr>tasks := (tasks sa)(1 \<mapsto> tha\<lparr>pc := At_kill_handle\<rparr>)\<rparr>)"
    by blast
  then have a: "at (run [Act 1 Branch_done] sa) 1 = Some At_kill_handle"
    by (simp add: at_def)
  from stop_deadline_kill [where s = sb and t = 1 and th = thb and e = "Some err_perm"] hb
  have b: "at (run [Act 1 Plain, Act 1 (Returns (Some err_perm)), Act 1 Plain, Act 1 Plain] sb) 1
      = Some (Returned (Some err_perm))"
    by blast
  from stop_deadline_kill [where s = sc and t = 1 and th = thc and a = Branch_recv] hc
  have "step (Act 1 Branch_recv) sc = None"
    by blast
  then have c: "run [Act 1 Branch_recv] sc = None" by simp
  from stop_deadline_kill [where s = sd and t = 1 and th = thc and v = "Some err_killed" and vs = "[]"] hd hc(2)
  have d: "at (run [Act 1 Branch_recv, Act 1 Plain, Act 1 Plain, Act 1 Plain] sd) 1
      = Some (Returned None)"
    by (simp del: run.simps)
  show ?thesis
    unfolding at_run_from [OF ra] at_run_from [OF rb] run_from [OF rc] at_run_from [OF rd]
    using a b c d by blast
qed

subsection \<open>The once guard\<close>

text \<open>
  Claim C4. In every state a controller reaches, under any interleaving of any calls of
  \<^verbatim>\<open>Wait\<close>, \<^verbatim>\<open>Stop\<close>, \<^verbatim>\<open>Kill\<close> and \<^verbatim>\<open>Restart\<close>: the function guarded by the once
  (\<^verbatim>\<open>stop\<close> or \<^verbatim>\<open>kill\<close>) has been entered at most once and has returned at most one
  value, at most one task is inside it, and every call of \<^verbatim>\<open>Stop\<close> or \<^verbatim>\<open>Kill\<close> that
  has returned has returned that one value.
\<close>

theorem once_guard:
  assumes "run ls (controller c) = Some s"
  shows "bodies s \<le> 1 \<and> length (outcomes s) \<le> 1
    \<and> (\<forall>t u th uh. tasks s t = Some th \<and> tasks s u = Some uh \<and> in_body (pc th) \<and> in_body (pc uh)
          \<longrightarrow> t = u)
    \<and> (\<forall>t th r. tasks s t = Some th \<and> pc th = Returned r
          \<and> (call th = Call_Stop \<or> call th = Call_Kill) \<longrightarrow> outcomes s = [r])"
proof -
  from reachable_inv [OF assms] obtain rho where "inv rho s" ..
  then have b: "once_inv rho s" by (simp add: inv_def)
  then have g: "once_global rho s" by (simp add: once_inv_def)
  have "bodies s \<le> 1"
    using g by (cases "o_once (once (proc s)) = Fresh") (simp_all add: once_global_def)
  moreover have "length (outcomes s) \<le> 1"
    using g by (cases "o_once (once (proc s)) = Finished") (simp_all add: once_global_def)
  moreover have "\<forall>t u th uh. tasks s t = Some th \<and> tasks s u = Some uh \<and> in_body (pc th)
      \<and> in_body (pc uh) \<longrightarrow> t = u"
    using body_unique [OF b] by blast
  moreover have "\<forall>t th r. tasks s t = Some th \<and> pc th = Returned r
      \<and> (call th = Call_Stop \<or> call th = Call_Kill) \<longrightarrow> outcomes s = [r]"
    using once_invD [OF b] by (auto simp: once_task_def)
  ultimately show ?thesis by blast
qed

theorem once_guard_witness:
  "\<exists>s. run [Invoke 1 Call_Stop, Invoke 2 Call_Kill, Invoke 3 Call_Stop, Act 1 Plain, Act 1 Plain,
            Act 1 (Returns None), Act 0 (Returns (Some err_exit7)), Act 0 Plain, Act 1 Branch_recv,
            Act 1 Plain, Act 1 Plain, Act 1 Plain, Act 2 Plain, Act 2 Plain, Act 3 Plain,
            Act 3 Plain] (controller sh_exit0) = Some s
     \<and> bodies s \<le> 1 \<and> length (outcomes s) \<le> 1
     \<and> at (Some s) 1 = Some (Returned (Some err_exit7))
     \<and> at (Some s) 2 = Some (Returned (Some err_exit7))
     \<and> at (Some s) 3 = Some (Returned (Some err_exit7))
     \<and> outcomes s = [Some err_exit7]"
proof -
  define s where "s = the (run [Invoke 1 Call_Stop, Invoke 2 Call_Kill, Invoke 3 Call_Stop,
            Act 1 Plain, Act 1 Plain,
            Act 1 (Returns None), Act 0 (Returns (Some err_exit7)), Act 0 Plain, Act 1 Branch_recv,
            Act 1 Plain, Act 1 Plain, Act 1 Plain, Act 2 Plain, Act 2 Plain, Act 3 Plain,
            Act 3 Plain] (controller sh_exit0))"
  define th where "th = \<lparr>call = Call_Kill, pc = Returned (Some err_exit7), ctx_done = False\<rparr>"
  have r: "run [Invoke 1 Call_Stop, Invoke 2 Call_Kill, Invoke 3 Call_Stop, Act 1 Plain, Act 1 Plain,
            Act 1 (Returns None), Act 0 (Returns (Some err_exit7)), Act 0 Plain, Act 1 Branch_recv,
            Act 1 Plain, Act 1 Plain, Act 1 Plain, Act 2 Plain, Act 2 Plain, Act 3 Plain,
            Act 3 Plain] (controller sh_exit0) = Some s"
    by (simp add: s_def eval_simps)
  have h: "tasks s 2 = Some th \<and> pc th = Returned (Some err_exit7)
      \<and> (call th = Call_Stop \<or> call th = Call_Kill)"
    and a: "at (Some s) 1 = Some (Returned (Some err_exit7))"
      "at (Some s) 2 = Some (Returned (Some err_exit7))"
      "at (Some s) 3 = Some (Returned (Some err_exit7))"
    by (simp_all add: s_def th_def eval_simps)
  from once_guard [OF r] h have "bodies s \<le> 1 \<and> length (outcomes s) \<le> 1"
    and "outcomes s = [Some err_exit7]"
    by blast+
  with r a show ?thesis by blast
qed

subsection \<open>Wait\<close>

text \<open>
  Claim C5. \<^verbatim>\<open>Wait\<close> (lines 298-305) at its \<^verbatim>\<open>select\<close>. While the exit channel is empty
  and open and the context is not done, the call cannot proceed. When the channel holds
  the deposited value \<open>v\<close>, the receive returns \<open>v\<close> (so \<^verbatim>\<open>nil\<close> exactly when the OS
  wait reported \<^verbatim>\<open>nil\<close>). When the context is done, the other branch calls \<^verbatim>\<open>Kill\<close>
  and returns its result: the recorded error if the once has finished, and, on a fresh
  once with the process still running, the result of the kill: the kill signal is sent,
  the goroutine of \<^verbatim>\<open>wait\<close> deposits the exit result \<open>x\<close>, and the call returns
  \<^verbatim>\<open>nil\<close> if \<open>x\<close> is \<^verbatim>\<open>nil\<close> or the kill-termination error and \<open>x\<close> otherwise.
\<close>

theorem Wait_select:
  "panic s = None \<and> tasks s t = Some th \<and> call th = Call_Wait \<and> pc th = At_Wait_select \<longrightarrow>
     (buf (exitCh (proc s)) = [] \<and> \<not> closed (exitCh (proc s)) \<and> \<not> ctx_done th \<longrightarrow>
        step (Act t a) s = None)
   \<and> (buf (exitCh (proc s)) = v # vs \<longrightarrow>
        at (run [Act t Branch_recv] s) t = Some (Returned v))
   \<and> (ctx_done th \<longrightarrow>
        at (run [Act t Branch_done] s) t = Some (At_Do Body_kill)
      \<and> (o_once (once (proc s)) = Finished \<longrightarrow>
           at (run [Act t Branch_done, Act t Plain, Act t Plain] s) t
             = Some (Returned (err (once (proc s)))))
      \<and> (o_once (once (proc s)) = Fresh \<and> Process (cmd (proc s)) \<noteq> None \<and> t \<noteq> 0
          \<and> tasks s 0 = Some th0 \<and> pc th0 = At_wait_os \<and> exitCh (proc s) = make_chan 1 \<longrightarrow>
           at (run [Act t Branch_done, Act t Plain, Act t Plain, Act t (Returns None),
                    Act 0 (Returns x), Act 0 Plain,
                    Act t Branch_recv, Act t Plain, Act t Plain, Act t Plain] s) t
             = Some (Returned (if x = None \<or> isKilled x then None else x))))"
  by (auto simp: exec_simps split: answer.splits)

theorem Wait_select_witness:
  "run ([Invoke 1 Call_Wait] @ [Act 1 Branch_recv]) (controller sh_exit0) = None
 \<and> at (run ([Act 0 (Returns (Some err_exit7)), Act 0 Plain, Invoke 1 Call_Wait]
           @ [Act 1 Branch_recv]) (controller sh_exit0)) 1 = Some (Returned (Some err_exit7))
 \<and> at (run ([Invoke 1 Call_Wait, Cancel 1]
           @ [Act 1 Branch_done, Act 1 Plain, Act 1 Plain, Act 1 (Returns None),
              Act 0 (Returns (Some err_killed)), Act 0 Plain,
              Act 1 Branch_recv, Act 1 Plain, Act 1 Plain, Act 1 Plain])
        (controller sh_exit0)) 1 = Some (Returned None)"
proof -
  define sa where "sa = the (run [Invoke 1 Call_Wait] (controller sh_exit0))"
  define sb where "sb = the (run [Act 0 (Returns (Some err_exit7)), Act 0 Plain, Invoke 1 Call_Wait]
    (controller sh_exit0))"
  define sc where "sc = the (run [Invoke 1 Call_Wait, Cancel 1] (controller sh_exit0))"
  define tha where "tha = \<lparr>call = Call_Wait, pc = At_Wait_select, ctx_done = False\<rparr>"
  define thc where "thc = \<lparr>call = Call_Wait, pc = At_Wait_select, ctx_done = True\<rparr>"
  define th0 where "th0 = \<lparr>call = Go_wait, pc = At_wait_os, ctx_done = False\<rparr>"
  have ra: "run [Invoke 1 Call_Wait] (controller sh_exit0) = Some sa"
    and rb: "run [Act 0 (Returns (Some err_exit7)), Act 0 Plain, Invoke 1 Call_Wait]
      (controller sh_exit0) = Some sb"
    and rc: "run [Invoke 1 Call_Wait, Cancel 1] (controller sh_exit0) = Some sc"
    by (simp_all add: sa_def sb_def sc_def eval_simps)
  have ha: "panic sa = None \<and> tasks sa 1 = Some tha \<and> call tha = Call_Wait \<and> pc tha = At_Wait_select"
      "buf (exitCh (proc sa)) = [] \<and> \<not> closed (exitCh (proc sa)) \<and> \<not> ctx_done tha"
    and hb: "panic sb = None \<and> tasks sb 1 = Some tha \<and> call tha = Call_Wait \<and> pc tha = At_Wait_select"
      "buf (exitCh (proc sb)) = Some err_exit7 # []"
    and hc: "panic sc = None \<and> tasks sc 1 = Some thc \<and> call thc = Call_Wait \<and> pc thc = At_Wait_select"
      "ctx_done thc"
      "o_once (once (proc sc)) = Fresh \<and> Process (cmd (proc sc)) \<noteq> None \<and> (1::nat) \<noteq> 0
        \<and> tasks sc 0 = Some th0 \<and> pc th0 = At_wait_os \<and> exitCh (proc sc) = make_chan 1"
      "isKilled (Some err_killed)"
    by (simp_all add: sa_def sb_def sc_def tha_def thc_def th0_def eval_simps)
  from Wait_select [where s = sa and t = 1 and th = tha and a = Branch_recv] ha
  have "step (Act 1 Branch_recv) sa = None" by blast
  then have a: "run [Act 1 Branch_recv] sa = None" by simp
  from Wait_select [where s = sb and t = 1 and th = tha and v = "Some err_exit7" and vs = "[]"] hb
  have b: "at (run [Act 1 Branch_recv] sb) 1 = Some (Returned (Some err_exit7))" by blast
  from Wait_select [where s = sc and t = 1 and th = thc and ?th0.0 = th0 and x = "Some err_killed"] hc
  have c: "at (run [Act 1 Branch_done, Act 1 Plain, Act 1 Plain, Act 1 (Returns None),
              Act 0 (Returns (Some err_killed)), Act 0 Plain,
              Act 1 Branch_recv, Act 1 Plain, Act 1 Plain, Act 1 Plain] sc) 1 = Some (Returned None)"
    by (simp del: run.simps)
  show ?thesis
    unfolding run_from [OF ra] at_run_from [OF rb] at_run_from [OF rc]
    using a b c by blast
qed

subsection \<open>Start and the goroutine of wait\<close>

text \<open>
  Claim C6. \<^verbatim>\<open>Cmd.Start\<close> returns the error and no controller when the launch fails.
  Otherwise it returns a controller whose exit channel is empty, of capacity one, and
  whose only task is the goroutine of \<^verbatim>\<open>wait\<close>. In every state reached from there: the
  OS wait has returned at most once and at most one value was sent; task 0 is the only
  goroutine of \<^verbatim>\<open>wait\<close>; when it is about to send, the send can happen at once and
  leaves exactly its value in the channel; when it has returned, exactly one value was
  sent.
\<close>

theorem Start_reaper:
  "Start (Inl e) c = Inl e
 \<and> (\<exists>s0. Start (Inr h) c = Inr s0
      \<and> exitCh (proc s0) = make_chan 1 \<and> buf (exitCh (proc s0)) = []
      \<and> (\<forall>t. (tasks s0 t \<noteq> None) = (t = 0))
      \<and> tasks s0 0 = Some \<lparr>call = Go_wait, pc = At_wait_os, ctx_done = False\<rparr>
      \<and> (\<forall>ls s. run ls s0 = Some s \<longrightarrow>
            waits s \<le> 1 \<and> sends s \<le> 1
          \<and> (\<forall>t th. tasks s t = Some th \<longrightarrow> (call th = Go_wait) = (t = 0))
          \<and> (\<forall>th x. tasks s 0 = Some th \<and> pc th = At_wait_send x \<and> panic s = None \<longrightarrow>
                (\<exists>s'. step (Act 0 Plain) s = Some s' \<and> buf (exitCh (proc s')) = [x]
                    \<and> sends s' = 1 \<and> panic s' = None))
          \<and> (\<forall>th r. tasks s 0 = Some th \<and> pc th = Returned r \<longrightarrow> sends s = 1 \<and> waits s = 1)))"
proof -
  let ?s0 = "controller (c\<lparr>Process := Some h\<rparr>)"
  have "\<forall>ls s. run ls ?s0 = Some s \<longrightarrow>
            waits s \<le> 1 \<and> sends s \<le> 1
          \<and> (\<forall>t th. tasks s t = Some th \<longrightarrow> (call th = Go_wait) = (t = 0))
          \<and> (\<forall>th x. tasks s 0 = Some th \<and> pc th = At_wait_send x \<and> panic s = None \<longrightarrow>
                (\<exists>s'. step (Act 0 Plain) s = Some s' \<and> buf (exitCh (proc s')) = [x]
                    \<and> sends s' = 1 \<and> panic s' = None))
          \<and> (\<forall>th r. tasks s 0 = Some th \<and> pc th = Returned r \<longrightarrow> sends s = 1 \<and> waits s = 1)"
  proof (intro allI impI)
    fix ls s assume "run ls ?s0 = Some s"
    from reachable_inv [OF this] obtain rho where i: "inv rho s" ..
    then have r: "reaper_inv s" by (simp add: inv_def)
    have "\<forall>t th. tasks s t = Some th \<longrightarrow> (call th = Go_wait) = (t = 0)"
      using reaper_invD [OF r] by (simp add: reaper_task_def)
    moreover have "\<forall>th r. tasks s 0 = Some th \<and> pc th = Returned r \<longrightarrow> sends s = 1 \<and> waits s = 1"
    proof (intro allI impI)
      fix th r assume t: "tasks s 0 = Some th \<and> pc th = Returned r"
      with reaper_invD [OF r, of 0 th] show "sends s = 1 \<and> waits s = 1"
        by (auto simp: reaper_task_def stage_def)
    qed
    ultimately show "waits s \<le> 1 \<and> sends s \<le> 1
          \<and> (\<forall>t th. tasks s t = Some th \<longrightarrow> (call th = Go_wait) = (t = 0))
          \<and> (\<forall>th x. tasks s 0 = Some th \<and> pc th = At_wait_send x \<and> panic s = None \<longrightarrow>
                (\<exists>s'. step (Act 0 Plain) s = Some s' \<and> buf (exitCh (proc s')) = [x]
                    \<and> sends s' = 1 \<and> panic s' = None))
          \<and> (\<forall>th r. tasks s 0 = Some th \<and> pc th = Returned r \<longrightarrow> sends s = 1 \<and> waits s = 1)"
      using sends_le [OF r] deposit_ready [OF i] by blast
  qed
  moreover have "Start (Inr h) c = Inr ?s0" "Start (Inl e) c = Inl e"
    by (simp_all add: Start_def exec_Start_def)
  moreover have "exitCh (proc ?s0) = make_chan 1 \<and> buf (exitCh (proc ?s0)) = []
      \<and> (\<forall>t. (tasks ?s0 t \<noteq> None) = (t = 0))
      \<and> tasks ?s0 0 = Some \<lparr>call = Go_wait, pc = At_wait_os, ctx_done = False\<rparr>"
    by (simp add: controller_def newProcess_def entry_def make_chan_def)
  ultimately show ?thesis by blast
qed

theorem Start_reaper_witness:
  "Start (Inl err_perm) (shellCommand (Some ''/bin/sh'') (New [] []) ''exit 0'') = Inl err_perm
 \<and> (\<exists>s0 s s'. Start (Inr 4711) (shellCommand (Some ''/bin/sh'') (New [] []) ''exit 0'') = Inr s0
      \<and> run [Invoke 1 Call_Stop, Act 0 (Returns (Some err_exit7))] s0 = Some s
      \<and> step (Act 0 Plain) s = Some s'
      \<and> buf (exitCh (proc s')) = [Some err_exit7] \<and> sends s' = 1 \<and> waits s \<le> 1)"
proof -
  let ?c = "shellCommand (Some ''/bin/sh'') (New [] []) ''exit 0''"
  from Start_reaper [of err_perm ?c 4711] obtain s0 where
    e: "Start (Inl err_perm) ?c = Inl err_perm" and
    s0: "Start (Inr 4711) ?c = Inr s0" and
    all: "\<forall>ls s. run ls s0 = Some s \<longrightarrow>
            waits s \<le> 1 \<and> sends s \<le> 1
          \<and> (\<forall>t th. tasks s t = Some th \<longrightarrow> (call th = Go_wait) = (t = 0))
          \<and> (\<forall>th x. tasks s 0 = Some th \<and> pc th = At_wait_send x \<and> panic s = None \<longrightarrow>
                (\<exists>s'. step (Act 0 Plain) s = Some s' \<and> buf (exitCh (proc s')) = [x]
                    \<and> sends s' = 1 \<and> panic s' = None))
          \<and> (\<forall>th r. tasks s 0 = Some th \<and> pc th = Returned r \<longrightarrow> sends s = 1 \<and> waits s = 1)"
    by blast
  from s0 have s0': "s0 = controller (?c\<lparr>Process := Some 4711\<rparr>)"
    by (simp add: Start_def exec_Start_def)
  define s where "s = the (run [Invoke 1 Call_Stop, Act 0 (Returns (Some err_exit7))] s0)"
  define th where "th = \<lparr>call = Go_wait, pc = At_wait_send (Some err_exit7), ctx_done = False\<rparr>"
  have r: "run [Invoke 1 Call_Stop, Act 0 (Returns (Some err_exit7))] s0 = Some s"
    by (simp add: s_def s0' eval_simps)
  have h: "tasks s 0 = Some th \<and> pc th = At_wait_send (Some err_exit7) \<and> panic s = None"
    by (simp add: s_def th_def s0' eval_simps)
  from all r h obtain s' where "step (Act 0 Plain) s = Some s'"
    "buf (exitCh (proc s')) = [Some err_exit7]" "sends s' = 1" "waits s \<le> 1"
    by blast
  with e s0 r show ?thesis by blast
qed

subsection \<open>Wait after the exit channel was drained\<close>

text \<open>
  Claim C7 as stated fails for a channel drained by \<^verbatim>\<open>Wait\<close>. On a started command the
  goroutine of \<^verbatim>\<open>wait\<close> deposits the exit result, a first \<^verbatim>\<open>Wait\<close> receives and
  returns it, and a second \<^verbatim>\<open>Wait\<close> is called with a context that is not done
  (\<^verbatim>\<open>context.Background()\<close>). The exit channel is then dead, and stays so by
  \<open>dead_slot_run\<close>: neither branch of the second call's \<^verbatim>\<open>select\<close> can be taken, also
  after a \<^verbatim>\<open>Stop\<close> has come and gone. The call returns neither the cached result nor
  \<^verbatim>\<open>nil\<close>.
\<close>

theorem second_Wait_blocks_counterexample:
  "at (run [Act 0 (Returns (Some err_exit7)), Act 0 Plain, Invoke 1 Call_Wait, Act 1 Branch_recv,
            Invoke 2 Call_Wait] (controller sh_exit0)) 1 = Some (Returned (Some err_exit7))
 \<and> at (run [Act 0 (Returns (Some err_exit7)), Act 0 Plain, Invoke 1 Call_Wait, Act 1 Branch_recv,
            Invoke 2 Call_Wait] (controller sh_exit0)) 2 = Some At_Wait_select
 \<and> map_option dead_slot
      (run [Act 0 (Returns (Some err_exit7)), Act 0 Plain, Invoke 1 Call_Wait, Act 1 Branch_recv,
            Invoke 2 Call_Wait] (controller sh_exit0)) = Some True
 \<and> run [Act 0 (Returns (Some err_exit7)), Act 0 Plain, Invoke 1 Call_Wait, Act 1 Branch_recv,
        Invoke 2 Call_Wait, Act 2 Branch_recv] (controller sh_exit0) = None
 \<and> run [Act 0 (Returns (Some err_exit7)), Act 0 Plain, Invoke 1 Call_Wait, Act 1 Branch_recv,
        Invoke 2 Call_Wait, Act 2 Branch_done] (controller sh_exit0) = None
 \<and> run [Act 0 (Returns (Some err_exit7)), Act 0 Plain, Invoke 1 Call_Wait, Act 1 Branch_recv,
        Invoke 2 Call_Wait, Invoke 3 Call_Stop, Act 3 Plain, Act 3 Plain,
        Act 3 (Returns (Some ErrProcessDone)), Act 3 Plain, Act 3 Plain, Act 2 Branch_recv]
       (controller sh_exit0) = None"
  by (simp add: eval_simps dead_slot_def all_tasks_def)

text \<open>
  Claim C7, as amended. In a reachable state whose exit channel is closed (drained and
  closed by \<^verbatim>\<open>stop\<close> or \<^verbatim>\<open>kill\<close>), the receive of a \<^verbatim>\<open>Wait\<close> is ready and returns
  \<^verbatim>\<open>nil\<close>, the zero value, leaving the channel as it is. When the channel was drained
  and left open (by an earlier \<^verbatim>\<open>Wait\<close>) and is dead, a \<^verbatim>\<open>Wait\<close> whose context is not
  done cannot proceed, the channel stays dead in every later state, and the call gets
  on only through its context: once that is done it calls \<^verbatim>\<open>Kill\<close>.
\<close>

theorem Wait_after_drain:
  "(run ls (controller c) = Some s \<and> closed (exitCh (proc s)) \<and> panic s = None
     \<and> tasks s t = Some th \<and> pc th = At_Wait_select \<longrightarrow>
       at (run [Act t Branch_recv] s) t = Some (Returned None)
     \<and> slot (run [Act t Branch_recv] s) = Some (exitCh (proc s)))
 \<and> (dead_slot s \<and> panic s = None \<and> tasks s t = Some th \<and> pc th = At_Wait_select \<longrightarrow>
       (\<not> ctx_done th \<longrightarrow> step (Act t a) s = None)
     \<and> (\<forall>ls' s'. run ls' s = Some s' \<longrightarrow> dead_slot s')
     \<and> at (run [Cancel t, Act t Branch_done] s) t = Some (At_Do Body_kill))"
proof (intro conjI impI allI)
  assume h: "run ls (controller c) = Some s \<and> closed (exitCh (proc s)) \<and> panic s = None
     \<and> tasks s t = Some th \<and> pc th = At_Wait_select"
  then obtain rho where "inv rho s" using reachable_inv by blast
  then have "close_global s" by (simp add: inv_def close_inv_def)
  with h have e: "buf (exitCh (proc s)) = []" by (simp add: close_global_def)
  with h show "at (run [Act t Branch_recv] s) t = Some (Returned None)"
    by (simp add: exec_simps)
  from e h show "slot (run [Act t Branch_recv] s) = Some (exitCh (proc s))"
    by (simp add: exec_simps)
next
  fix ls' s'
  assume "dead_slot s \<and> panic s = None \<and> tasks s t = Some th \<and> pc th = At_Wait_select"
    and "run ls' s = Some s'"
  then show "dead_slot s'" using dead_slot_run by blast
qed (auto simp: exec_simps dead_slot_def split: answer.splits)

theorem Wait_after_drain_witness:
  "at (run [Invoke 1 Call_Stop, Act 1 Plain, Act 1 Plain, Act 1 (Returns None),
            Act 0 (Returns (Some err_exit7)), Act 0 Plain, Act 1 Branch_recv, Act 1 Plain,
            Act 1 Plain, Act 1 Plain, Invoke 2 Call_Wait] (controller sh_exit0)) 1
     = Some (Returned (Some err_exit7))
 \<and> at (run ([Invoke 1 Call_Stop, Act 1 Plain, Act 1 Plain, Act 1 (Returns None),
            Act 0 (Returns (Some err_exit7)), Act 0 Plain, Act 1 Branch_recv, Act 1 Plain,
            Act 1 Plain, Act 1 Plain, Invoke 2 Call_Wait] @ [Act 2 Branch_recv])
        (controller sh_exit0)) 2 = Some (Returned None)
 \<and> run ([Act 0 (Returns (Some err_exit7)), Act 0 Plain, Invoke 1 Call_Wait, Act 1 Branch_recv,
         Invoke 2 Call_Wait] @ [Act 2 Branch_recv]) (controller sh_exit0) = None
 \<and> at (run ([Act 0 (Returns (Some err_exit7)), Act 0 Plain, Invoke 1 Call_Wait, Act 1 Branch_recv,
             Invoke 2 Call_Wait] @ [Cancel 2, Act 2 Branch_done]) (controller sh_exit0)) 2
     = Some (At_Do Body_kill)
 \<and> map_option dead_slot
      (run ([Act 0 (Returns (Some err_exit7)), Act 0 Plain, Invoke 1 Call_Wait, Act 1 Branch_recv,
             Invoke 2 Call_Wait] @ [Invoke 3 Call_Kill]) (controller sh_exit0)) = Some True"
proof -
  define s1 where "s1 = the (run [Invoke 1 Call_Stop, Act 1 Plain, Act 1 Plain, Act 1 (Returns None),
            Act 0 (Returns (Some err_exit7)), Act 0 Plain, Act 1 Branch_recv, Act 1 Plain,
            Act 1 Plain, Act 1 Plain, Invoke 2 Call_Wait] (controller sh_exit0))"
  define s2 where "s2 = the (run [Act 0 (Returns (Some err_exit7)), Act 0 Plain, Invoke 1 Call_Wait,
            Act 1 Branch_recv, Invoke 2 Call_Wait] (controller sh_exit0))"
  define s3 where "s3 = the (run [Invoke 3 Call_Kill] s2)"
  define th where "th = \<lparr>call = Call_Wait, pc = At_Wait_select, ctx_done = False\<rparr>"
  have r1: "run [Invoke 1 Call_Stop, Act 1 Plain, Act 1 Plain, Act 1 (Returns None),
            Act 0 (Returns (Some err_exit7)), Act 0 Plain, Act 1 Branch_recv, Act 1 Plain,
            Act 1 Plain, Act 1 Plain, Invoke 2 Call_Wait] (controller sh_exit0) = Some s1"
    and r2: "run [Act 0 (Returns (Some err_exit7)), Act 0 Plain, Invoke 1 Call_Wait,
            Act 1 Branch_recv, Invoke 2 Call_Wait] (controller sh_exit0) = Some s2"
    by (simp_all add: s1_def s2_def eval_simps)
  have r3: "run [Invoke 3 Call_Kill] s2 = Some s3"
    by (simp add: s3_def s2_def eval_simps)
  have h1: "closed (exitCh (proc s1)) \<and> panic s1 = None \<and> tasks s1 2 = Some th
      \<and> pc th = At_Wait_select"
    and a: "at (Some s1) 1 = Some (Returned (Some err_exit7))"
    and h2: "dead_slot s2 \<and> panic s2 = None \<and> tasks s2 2 = Some th \<and> pc th = At_Wait_select"
      "\<not> ctx_done th"
    by (simp_all add: s1_def s2_def th_def eval_simps dead_slot_def all_tasks_def)
  note inst1 = Wait_after_drain [where s = s1 and t = 2 and th = th and c = sh_exit0]
  note inst2 = Wait_after_drain [where s = s2 and t = 2 and th = th and a = Branch_recv]
  from inst1 r1 h1 have b: "at (run [Act 2 Branch_recv] s1) 2 = Some (Returned None)"
    by blast
  from inst2 h2 have "step (Act 2 Branch_recv) s2 = None"
    and d: "at (run [Cancel 2, Act 2 Branch_done] s2) 2 = Some (At_Do Body_kill)"
    and f: "\<forall>ls' s'. run ls' s2 = Some s' \<longrightarrow> dead_slot s'"
    by blast+
  then have c: "run [Act 2 Branch_recv] s2 = None" by simp
  from f r3 have e: "dead_slot s3" by blast
  from e r3 have e': "map_option dead_slot (run [Invoke 3 Call_Kill] s2) = Some True" by simp
  show ?thesis
    unfolding at_run_from [OF r1] at_run_from [OF r2] run_from [OF r2] r1
    using a b c d e' by blast
qed

subsection \<open>Restart\<close>

text \<open>
  Claim C8 does not hold for a started command whose \<^verbatim>\<open>Args\<close> is empty, which
  \<^verbatim>\<open>Cmd.Start\<close> accepts: after the exit was waited for, the \<^verbatim>\<open>Stop\<close> inside \<^verbatim>\<open>Restart\<close>
  returns \<^verbatim>\<open>nil\<close>, and the launch then panics in \<^verbatim>\<open>p.cmd.Args[1:]\<close> instead of
  returning a controller.
\<close>

theorem Restart_empty_Args_panics:
  "Start (Inr 4712) (bare_true\<lparr>Process := None\<rparr>) = Inr (controller bare_true)
 \<and> at (run [Act 0 (Returns None), Act 0 Plain, Invoke 1 Call_Wait, Act 1 Branch_recv,
            Invoke 2 Call_Restart, Act 2 Plain, Act 2 Plain, Act 2 (Returns (Some ErrProcessDone)),
            Act 2 Plain, Act 2 Plain] (controller bare_true)) 2 = Some At_Restart_launch
 \<and> map_option panic
      (run [Act 0 (Returns None), Act 0 Plain, Invoke 1 Call_Wait, Act 1 Branch_recv,
            Invoke 2 Call_Restart, Act 2 Plain, Act 2 Plain, Act 2 (Returns (Some ErrProcessDone)),
            Act 2 Plain, Act 2 Plain, Act 2 (Launches None (Inr 4713))] (controller bare_true))
      = Some (Some Slice_bounds)"
  by (simp add: eval_simps Start_def exec_Start_def Restart_next_def)

subsection \<open>The exit channel is sent to once and closed once\<close>

text \<open>
  Claim C9. In every state a controller reaches, under any interleaving of any calls of
  \<^verbatim>\<open>Wait\<close>, \<^verbatim>\<open>Stop\<close>, \<^verbatim>\<open>Kill\<close> and \<^verbatim>\<open>Restart\<close>: at most one value was sent on the
  exit channel, it was closed at most once, the program has not panicked on a send on
  a closed channel nor on a close of a closed channel, and a closed channel was sent to
  before and is empty.
\<close>

theorem exit_channel_safe:
  assumes "run ls (controller c) = Some s"
  shows "sends s \<le> 1 \<and> closes s \<le> 1
    \<and> panic s \<noteq> Some Send_on_closed \<and> panic s \<noteq> Some Close_of_closed
    \<and> (closed (exitCh (proc s)) \<longrightarrow> sends s = 1 \<and> buf (exitCh (proc s)) = [])"
proof -
  from reachable_inv [OF assms] obtain rho where i: "inv rho s" ..
  then have r: "reaper_inv s" and d: "slot_global s" and c: "close_global s"
    and p: "panic s = None \<or> panic s = Some Slice_bounds"
    by (simp_all add: inv_def slot_inv_def close_inv_def)
  from c have "closes s \<le> 1"
    by (cases "closed (exitCh (proc s))") (simp_all add: close_global_def)
  moreover from p have "panic s \<noteq> Some Send_on_closed \<and> panic s \<noteq> Some Close_of_closed" by auto
  moreover from sends_le [OF r] d c
  have "closed (exitCh (proc s)) \<longrightarrow> sends s = 1 \<and> buf (exitCh (proc s)) = []"
    by (auto simp: slot_global_def close_global_def)
  ultimately show ?thesis using sends_le [OF r] by blast
qed

theorem exit_channel_safe_witness:
  "\<exists>s. run [Invoke 1 Call_Stop, Invoke 2 Call_Kill, Act 1 Plain, Act 1 Plain, Act 1 (Returns None),
            Cancel 1, Act 1 Branch_done, Act 1 Plain, Act 1 (Returns None),
            Act 0 (Returns (Some err_killed)), Act 0 Plain, Act 1 Branch_recv, Act 1 Plain,
            Act 1 Plain, Act 1 Plain, Act 2 Plain, Act 2 Plain, Invoke 3 Call_Wait,
            Act 3 Branch_recv] (controller sh_exit0) = Some s
     \<and> sends s \<le> 1 \<and> closes s \<le> 1 \<and> closed (exitCh (proc s)) \<and> sends s = 1
     \<and> buf (exitCh (proc s)) = [] \<and> panic s = None"
proof -
  define s where "s = the (run [Invoke 1 Call_Stop, Invoke 2 Call_Kill, Act 1 Plain, Act 1 Plain,
            Act 1 (Returns None),
            Cancel 1, Act 1 Branch_done, Act 1 Plain, Act 1 (Returns None),
            Act 0 (Returns (Some err_killed)), Act 0 Plain, Act 1 Branch_recv, Act 1 Plain,
            Act 1 Plain, Act 1 Plain, Act 2 Plain, Act 2 Plain, Invoke 3 Call_Wait,
            Act 3 Branch_recv] (controller sh_exit0))"
  have r: "run [Invoke 1 Call_Stop, Invoke 2 Call_Kill, Act 1 Plain, Act 1 Plain, Act 1 (Returns None),
            Cancel 1, Act 1 Branch_done, Act 1 Plain, Act 1 (Returns None),
            Act 0 (Returns (Some err_killed)), Act 0 Plain, Act 1 Branch_recv, Act 1 Plain,
            Act 1 Plain, Act 1 Plain, Act 2 Plain, Act 2 Plain, Invoke 3 Call_Wait,
            Act 3 Branch_recv] (controller sh_exit0) = Some s"
    by (simp add: s_def eval_simps)
  have h: "closed (exitCh (proc s))" "panic s = None"
    by (simp_all add: s_def eval_simps)
  from exit_channel_safe [OF r] h(1)
  have "sends s \<le> 1 \<and> closes s \<le> 1" "sends s = 1 \<and> buf (exitCh (proc s)) = []"
    by blast+
  with r h show ?thesis by blast
qed

subsection \<open>A trivial return leaves the exit channel alone\<close>

text \<open>
  Claim C10. When \<^verbatim>\<open>stop\<close> in a call of \<^verbatim>\<open>Stop\<close>, or \<^verbatim>\<open>kill\<close> in a call of \<^verbatim>\<open>Kill\<close>,
  returns \<^verbatim>\<open>nil\<close> because there is no handle or because the signal send reports a
  finished process, the exit channel at the return is the exit channel at the entry,
  and a \<^verbatim>\<open>Wait\<close> called afterwards receives the value \<open>v\<close> the channel holds. Last
  conjunct: when the goroutine of \<^verbatim>\<open>wait\<close> deposits only after such a \<^verbatim>\<open>Stop\<close> has
  returned, a later \<^verbatim>\<open>Wait\<close> still receives the deposited value.
\<close>

theorem trivial_return_keeps_slot:
  "(panic s = None \<and> tasks s t = Some th \<and> tasks s u = None \<and> u \<noteq> t
    \<and> (pc th = At_stop_handle \<and> call th = Call_Stop \<or> pc th = At_kill_handle \<and> call th = Call_Kill)
    \<longrightarrow>
      (Process (cmd (proc s)) = None \<longrightarrow>
         at (run [Act t Plain, Act t Plain, Act t Plain] s) t = Some (Returned None)
       \<and> slot (run [Act t Plain, Act t Plain, Act t Plain] s) = Some (exitCh (proc s))
       \<and> (buf (exitCh (proc s)) = v # vs \<longrightarrow>
            at (run [Act t Plain, Act t Plain, Act t Plain, Invoke u Call_Wait, Act u Branch_recv]
                  s) u = Some (Returned v)))
    \<and> (Process (cmd (proc s)) \<noteq> None \<and> isProcessDone e \<longrightarrow>
         at (run [Act t Plain, Act t (Returns e), Act t Plain, Act t Plain] s) t
           = Some (Returned None)
       \<and> slot (run [Act t Plain, Act t (Returns e), Act t Plain, Act t Plain] s)
           = Some (exitCh (proc s))
       \<and> (buf (exitCh (proc s)) = v # vs \<longrightarrow>
            at (run [Act t Plain, Act t (Returns e), Act t Plain, Act t Plain,
                     Invoke u Call_Wait, Act u Branch_recv] s) u = Some (Returned v))))
 \<and> (Process c \<noteq> None \<and> Is_ErrProcessDone d \<longrightarrow>
      at (run [Act 0 (Returns v), Invoke 1 Call_Stop, Act 1 Plain, Act 1 Plain,
               Act 1 (Returns (Some d)), Act 1 Plain, Act 1 Plain, Act 0 Plain,
               Invoke 2 Call_Wait, Act 2 Branch_recv] (controller c)) 2 = Some (Returned v))"
  by (auto simp: exec_simps controller_def newProcess_def dest!: isProcessDone_SomeD)

theorem trivial_return_keeps_slot_witness:
  "at (run ([Act 0 (Returns (Some err_exit7)), Act 0 Plain, Invoke 1 Call_Stop, Act 1 Plain]
           @ [Act 1 Plain, Act 1 (Returns (Some ErrProcessDone)), Act 1 Plain, Act 1 Plain])
        (controller sh_exit0)) 1 = Some (Returned None)
 \<and> slot (run ([Act 0 (Returns (Some err_exit7)), Act 0 Plain, Invoke 1 Call_Stop, Act 1 Plain]
           @ [Act 1 Plain, Act 1 (Returns (Some ErrProcessDone)), Act 1 Plain, Act 1 Plain])
        (controller sh_exit0)) = Some \<lparr>buf = [Some err_exit7], cap = 1, closed = False\<rparr>
 \<and> at (run ([Act 0 (Returns (Some err_exit7)), Act 0 Plain, Invoke 1 Call_Stop, Act 1 Plain]
           @ [Act 1 Plain, Act 1 (Returns (Some ErrProcessDone)), Act 1 Plain, Act 1 Plain,
              Invoke 2 Call_Wait, Act 2 Branch_recv])
        (controller sh_exit0)) 2 = Some (Returned (Some err_exit7))
 \<and> at (run [Act 0 (Returns (Some err_exit7)), Invoke 1 Call_Stop, Act 1 Plain, Act 1 Plain,
            Act 1 (Returns (Some ErrProcessDone)), Act 1 Plain, Act 1 Plain, Act 0 Plain,
            Invoke 2 Call_Wait, Act 2 Branch_recv] (controller sh_exit0)) 2
      = Some (Returned (Some err_exit7))"
proof -
  define s where "s = the (run [Act 0 (Returns (Some err_exit7)), Act 0 Plain, Invoke 1 Call_Stop,
    Act 1 Plain] (controller sh_exit0))"
  define th where "th = \<lparr>call = Call_Stop, pc = At_stop_handle, ctx_done = False\<rparr>"
  have r: "run [Act 0 (Returns (Some err_exit7)), Act 0 Plain, Invoke 1 Call_Stop, Act 1 Plain]
      (controller sh_exit0) = Some s"
    by (simp add: s_def eval_simps)
  have h: "panic s = None \<and> tasks s 1 = Some th \<and> tasks s 2 = None \<and> (2::nat) \<noteq> 1
      \<and> (pc th = At_stop_handle \<and> call th = Call_Stop \<or> pc th = At_kill_handle \<and> call th = Call_Kill)"
      "Process (cmd (proc s)) \<noteq> None \<and> isProcessDone (Some ErrProcessDone)"
      "buf (exitCh (proc s)) = Some err_exit7 # []"
      "exitCh (proc s) = \<lparr>buf = [Some err_exit7], cap = 1, closed = False\<rparr>"
    and k: "Process sh_exit0 \<noteq> None \<and> Is_ErrProcessDone ErrProcessDone"
    by (simp_all add: s_def th_def eval_simps)
  note inst = trivial_return_keeps_slot
    [where s = s and t = 1 and th = th and u = 2 and v = "Some err_exit7" and vs = "[]"
       and e = "Some ErrProcessDone" and c = sh_exit0 and d = ErrProcessDone]
  from inst h(1,2)
  have a: "at (run [Act 1 Plain, Act 1 (Returns (Some ErrProcessDone)), Act 1 Plain, Act 1 Plain] s) 1
      = Some (Returned None)"
    and b: "slot (run [Act 1 Plain, Act 1 (Returns (Some ErrProcessDone)), Act 1 Plain, Act 1 Plain] s)
      = Some (exitCh (proc s))"
    by blast+
  from inst h(1,2,3)
  have c: "at (run [Act 1 Plain, Act 1 (Returns (Some ErrProcessDone)), Act 1 Plain, Act 1 Plain,
              Invoke 2 Call_Wait, Act 2 Branch_recv] s) 2 = Some (Returned (Some err_exit7))"
    by blast
  from inst k
  have d: "at (run [Act 0 (Returns (Some err_exit7)), Invoke 1 Call_Stop, Act 1 Plain, Act 1 Plain,
            Act 1 (Returns (Some ErrProcessDone)), Act 1 Plain, Act 1 Plain, Act 0 Plain,
            Invoke 2 Call_Wait, Act 2 Branch_recv] (controller sh_exit0)) 2
      = Some (Returned (Some err_exit7))"
    by blast
  show ?thesis
    unfolding at_run_from [OF r] slot_run_from [OF r]
    using a b c d h(4) by simp
qed

end
